theory Spec2Isabelle
  imports Main "HOL-Library.Word" "HOL-Library.Signed_Division"
begin

unbundle bit_operations_syntax

section \<open>Go values used by the package\<close>

text \<open>
  Go's \<open>int64\<close> and \<open>uint64\<close> are 64-bit words: \<open>+\<close>, \<open>-\<close> and \<open>*\<close> wrap around,
  \<open>sint\<close> reads a word as \<open>int64\<close>, \<open>unat\<close> as \<open>uint64\<close>. A Go \<open>string\<close> and a
  \<open>[]byte\<close> are both lists of 8-bit characters.
\<close>

type_synonym int64 = "64 word"
type_synonym uint64 = "64 word"
type_synonym int32 = "32 word"

text \<open>
  The values of Go's \<open>error\<close> interface that reach this package: \<open>*strconv.NumError\<close>
  (fields \<open>Func\<close>, \<open>Num\<close>, \<open>Err\<close>), \<open>*websocket.CloseError\<close> (fields \<open>Code\<close>, \<open>Text\<close>) and
  any other error, kept as its message. A \<open>nil\<close> error is \<open>None\<close> of \<open>go_error option\<close>.
\<close>

datatype strconv_err = ErrSyntax | ErrRange

datatype go_error =
    NumError string string strconv_err
  | CloseError int string
  | OtherError string

section \<open>timestamp.go\<close>

subsection \<open>The standard library's \<open>time.Time\<close>\<close>

text \<open>
  \<open>type Timestamp time.Time\<close>. A \<open>time.Time\<close> is the struct \<open>{wall uint64; ext int64;
  loc *Location}\<close> of package \<open>time\<close>; the three functions of that package which
  timestamp.go calls on it (\<open>Time.Unix\<close>, \<open>time.Unix\<close> and, through them, \<open>sec\<close> and
  \<open>unixTime\<close>) are written out below with the package's constants. A location is only
  carried along: \<open>UTC\<close>, \<open>Local\<close> or a named zone.
\<close>

datatype Location = UTC | Local | Zone string

record Time =
  wall :: uint64
  ext :: int64
  loc :: Location

type_synonym Timestamp = Time

definition hasMonotonic :: uint64 where
  "hasMonotonic = push_bit 63 1"

definition nsecShift :: nat where
  "nsecShift = 30"

definition secondsPerDay :: int where
  "secondsPerDay = 86400"

definition unixToInternal :: int64 where
  "unixToInternal =
     word_of_int ((1969 * 365 + 1969 div 4 - 1969 div 100 + 1969 div 400) * secondsPerDay)"

definition internalToUnix :: int64 where
  "internalToUnix = - unixToInternal"

definition wallToInternal :: int64 where
  "wallToInternal =
     word_of_int ((1884 * 365 + 1884 div 4 - 1884 div 100 + 1884 div 400) * secondsPerDay)"

definition sec :: "Time \<Rightarrow> int64" where
  "sec t =
     (if wall t AND hasMonotonic \<noteq> 0
      then wallToInternal + drop_bit (nsecShift + 1) (push_bit 1 (wall t))
      else ext t)"

definition unixSec :: "Time \<Rightarrow> int64" where
  "unixSec t = sec t + internalToUnix"

definition Time_Unix :: "Time \<Rightarrow> int64" where
  "Time_Unix t = unixSec t"

definition unixTime :: "int64 \<Rightarrow> int32 \<Rightarrow> Time" where
  "unixTime s nsec = \<lparr>wall = scast nsec, ext = s + unixToInternal, loc = Local\<rparr>"

text \<open>
  \<open>time.Unix(sec, nsec)\<close>: a \<open>nsec\<close> outside \<open>[0, 1e9)\<close> is carried into the seconds first;
  Go's \<open>/\<close> truncates towards zero (\<open>sdiv\<close>).
\<close>

definition time_Unix :: "int64 \<Rightarrow> int64 \<Rightarrow> Time" where
  "time_Unix s nsec =
     (if nsec <s 0 \<or> 1000000000 \<le>s nsec
      then
        (let n = word_of_int (sint nsec sdiv 1000000000) :: int64;
             s1 = s + n;
             nsec1 = nsec - n * 1000000000
         in if nsec1 <s 0
            then unixTime (s1 - 1) (ucast (nsec1 + 1000000000))
            else unixTime s1 (ucast nsec1))
      else unixTime s (ucast nsec))"

subsection \<open>The standard library's \<open>strconv.FormatInt\<close> and \<open>strconv.ParseInt\<close>\<close>

text \<open>
  Both are called with base 10 (and \<open>ParseInt\<close> with bit size 64) only, and are written
  out for that base. \<open>FormatInt\<close> writes the decimal digits of the magnitude
  \<open>uint64(i)\<close>, negated when \<open>i < 0\<close>, after a minus sign when \<open>i < 0\<close>.
\<close>

definition digit_char :: "nat \<Rightarrow> char" where
  "digit_char d = char_of (of_char (CHR ''0'') + d)"

fun formatBits :: "nat \<Rightarrow> string" where
  "formatBits u = (if u < 10 then [digit_char u] else formatBits (u div 10) @ [digit_char (u mod 10)])"

declare formatBits.simps [simp del]

definition FormatInt :: "int64 \<Rightarrow> string" where
  "FormatInt i = (if i <s 0 then CHR ''-'' # formatBits (unat (- i)) else formatBits (unat i))"

definition syntaxError :: "string \<Rightarrow> string \<Rightarrow> go_error" where
  "syntaxError fn str = NumError fn str ErrSyntax"

definition rangeError :: "string \<Rightarrow> string \<Rightarrow> go_error" where
  "rangeError fn str = NumError fn str ErrRange"

definition maxUint64 :: uint64 where
  "maxUint64 = push_bit 64 1 - 1"

definition is_digit :: "char \<Rightarrow> bool" where
  "is_digit c = ((of_char (CHR ''0'') :: nat) \<le> of_char c \<and> (of_char c :: nat) \<le> of_char (CHR ''9''))"

text \<open>
  The loop of \<open>ParseUint\<close> at base 10: a byte that is no digit is a syntax error (a letter
  is a digit value of at least 10, and an underscore is only skipped at base 0); \<open>cutoff\<close>
  is the smallest number whose tenfold exceeds \<open>maxUint64\<close>; on overflow the function
  returns \<open>maxVal\<close> with a range error.
\<close>

fun ParseUint_loop :: "string \<Rightarrow> string \<Rightarrow> uint64 \<Rightarrow> uint64 \<times> go_error option" where
  "ParseUint_loop s0 [] n = (n, None)"
| "ParseUint_loop s0 (c # cs) n =
     (let cutoff = maxUint64 div 10 + 1;
          maxVal = push_bit 64 (1 :: uint64) - 1
      in if \<not> is_digit c then (0, Some (syntaxError ''ParseUint'' s0))
         else
           (let d = of_nat (of_char c - of_char (CHR ''0'')) :: uint64
            in if n \<ge> cutoff then (maxVal, Some (rangeError ''ParseUint'' s0))
               else
                 (let n' = n * 10;
                      n1 = n' + d
                  in if n1 < n' \<or> n1 > maxVal then (maxVal, Some (rangeError ''ParseUint'' s0))
                     else ParseUint_loop s0 cs n1)))"

definition ParseUint :: "string \<Rightarrow> uint64 \<times> go_error option" where
  "ParseUint s = (if s = [] then (0, Some (syntaxError ''ParseUint'' s)) else ParseUint_loop s s 0)"

definition is_ErrRange :: "go_error \<Rightarrow> bool" where
  "is_ErrRange e = (case e of NumError f n r \<Rightarrow> r = ErrRange | _ \<Rightarrow> False)"

definition set_Func_Num :: "string \<Rightarrow> string \<Rightarrow> go_error \<Rightarrow> go_error" where
  "set_Func_Num fn str e = (case e of NumError f n r \<Rightarrow> NumError fn str r | _ \<Rightarrow> e)"

text \<open>
  \<open>ParseInt\<close> picks off a leading sign, parses the rest unsigned, hands on an error
  that is no range error under its own name, and checks the range of the result: the
  value returned with a range error of \<open>ParseUint\<close> is \<open>maxVal\<close>, which is out of range
  here too.
\<close>

definition ParseInt :: "string \<Rightarrow> int64 \<times> go_error option" where
  "ParseInt s =
     (case s of
        [] \<Rightarrow> (0, Some (syntaxError ''ParseInt'' s))
      | c # cs \<Rightarrow>
          (let s0 = s;
               neg = (c = CHR ''-'');
               s1 = (if c = CHR ''+'' then cs else if c = CHR ''-'' then cs else s);
               (un, err) = ParseUint s1
           in if err \<noteq> None \<and> \<not> is_ErrRange (the err)
              then (0, map_option (set_Func_Num ''ParseInt'' s0) err)
              else
                (let cutoff = push_bit 63 (1 :: uint64)
                 in if \<not> neg \<and> un \<ge> cutoff then (cutoff - 1, Some (rangeError ''ParseInt'' s0))
                    else if neg \<and> un > cutoff then (- cutoff, Some (rangeError ''ParseInt'' s0))
                    else (if neg then - un else un, None))))"

subsection \<open>The methods of \<open>Timestamp\<close>\<close>

text \<open>
  \<open>MarshalJSON\<close> returns the bytes and a \<open>nil\<close> error. \<open>UnmarshalJSON\<close> has a pointer
  receiver: it takes the receiver's value and returns the value it leaves there, with
  the error it returns.
\<close>

definition Timestamp_Unix :: "Timestamp \<Rightarrow> int64" where
  "Timestamp_Unix t = Time_Unix t"

definition MarshalJSON :: "Timestamp \<Rightarrow> string \<times> go_error option" where
  "MarshalJSON t = (FormatInt (Time_Unix t), None)"

definition UnmarshalJSON :: "Timestamp \<Rightarrow> string \<Rightarrow> Timestamp \<times> go_error option" where
  "UnmarshalJSON t s =
     (let r = s;
          (q, err) = ParseInt r
      in if err \<noteq> None then (t, err)
         else (time_Unix q 0, None))"

text \<open>
  A decimal integer, in the words of the claim on \<open>UnmarshalJSON\<close>: an optional sign
  followed by one or more decimal digits.
\<close>

definition is_decimal_integer :: "string \<Rightarrow> bool" where
  "is_decimal_integer s =
     (case s of
        [] \<Rightarrow> False
      | c # cs \<Rightarrow>
          (if c = CHR ''+'' \<or> c = CHR ''-'' then cs \<noteq> [] \<and> list_all is_digit cs
           else list_all is_digit s))"

section \<open>websocket_client.go\<close>

subsection \<open>The notification payloads\<close>

text \<open>
  The structs of the file, field by field. A \<open>float64\<close> is only carried, as its 64 bits.
  Several structs share field names; a field is then written with its struct's name
  (\<open>Setting.Type\<close>, \<open>NotificationContainer.Type\<close>).
\<close>

type_synonym float64 = "64 word"

record TimelineEntry =
  Identifier :: string
  ItemID :: int64
  MetadataState :: string
  SectionID :: int64
  State :: int64
  Title :: string
  Type :: int64
  UpdatedAt :: int64

record Activity =
  Cancellable :: bool
  Progress :: int64
  Subtitle :: string
  Title :: string
  Type :: string
  UserID :: int64
  UUID :: string

record ActivityNotification =
  Activity :: Activity
  Event :: string
  UUID :: string

record StatusNotification =
  Description :: string
  NotificationName :: string
  Title :: string

record PlaySessionStateNotification =
  ClientIdentifier :: string
  GUID :: string
  Key :: string
  PlayQueueItemID :: int64
  PlayQueueID :: int64
  RatingKey :: string
  SessionKey :: string
  State :: string
  URL :: string
  ViewOffset :: int64
  TranscodeSession :: string

record ReachabilityNotification =
  Reachability :: bool

record BackgroundProcessingQueueEventNotification =
  Event :: string
  QueueID :: int64

record TranscodeSession =
  AudioChannels :: int64
  AudioCodec :: string
  AudioDecision :: string
  Complete :: bool
  Container :: string
  Context :: string
  Duration :: int64
  Key :: string
  Progress :: float64
  Protocol :: string
  Remaining :: int64
  SourceAudioCodec :: string
  SourceVideoCodec :: string
  Speed :: float64
  Throttled :: bool
  TranscodeHwRequested :: bool
  VideoCodec :: string
  VideoDecision :: string

record Setting =
  Advanced :: bool
  Default :: bool
  Group :: string
  Hidden :: bool
  ID :: string
  Label :: string
  Summary :: string
  Type :: string
  Value :: string

record NotificationContainer =
  TimelineEntry :: "TimelineEntry list"
  ActivityNotification :: "ActivityNotification list"
  StatusNotification :: "StatusNotification list"
  PlaySessionStateNotification :: "PlaySessionStateNotification list"
  ReachabilityNotification :: "ReachabilityNotification list"
  BackgroundProcessingQueueEventNotification :: "BackgroundProcessingQueueEventNotification list"
  TranscodeSession :: "TranscodeSession list"
  Setting :: "Setting list"
  Size :: int64
  Type :: string

record WebsocketNotification =
  NotificationContainer :: NotificationContainer

subsection \<open>The dispatch table\<close>

text \<open>
  A callback \<open>func(n NotificationContainer)\<close> returns nothing and acts on the caller's
  variables: it is a function from the container to a change of the caller's state
  \<open>'w\<close>. The callback \<open>func(n NotificationContainer) {}\<close> changes nothing.
  \<open>OnPlaying\<close> and \<open>OnTranscodeUpdate\<close> assign into the map of the receiver; here they
  return the updated table.
\<close>

type_synonym 'w callback = "NotificationContainer \<Rightarrow> 'w \<Rightarrow> 'w"

record 'w NotificationEvents =
  events :: "string \<rightharpoonup> 'w callback"

definition noop :: "'w callback" where
  "noop n w = w"

definition NewNotificationEvents :: "'w NotificationEvents" where
  "NewNotificationEvents =
     \<lparr>events = map_of
        [(''playing'', noop),
         (''progress'', noop),
         (''reachability'', noop),
         (''transcode.end'', noop),
         (''transcodeSession.start'', noop),
         (''transcodeSession.end'', noop),
         (''transcodeSession.update'', noop),
         (''preference'', noop),
         (''update.statechange'', noop),
         (''activity'', noop),
         (''backgroundProcessingQueue'', noop),
         (''status'', noop),
         (''timeline'', noop),
         (''account'', noop)]\<rparr>"

definition OnPlaying :: "'w callback \<Rightarrow> 'w NotificationEvents \<Rightarrow> 'w NotificationEvents" where
  "OnPlaying fn e = e\<lparr>events := (events e)(''playing'' \<mapsto> fn)\<rparr>"

definition OnTranscodeUpdate :: "'w callback \<Rightarrow> 'w NotificationEvents \<Rightarrow> 'w NotificationEvents" where
  "OnTranscodeUpdate fn e = e\<lparr>events := (events e)(''transcodeSession.update'' \<mapsto> fn)\<rparr>"

text \<open>
  The fixed set of recognized kinds, in the words of the claim on the table: the
  fourteen keys of the literal in \<open>NewNotificationEvents\<close>.
\<close>

definition recognized_kinds :: "string set" where
  "recognized_kinds =
     {''playing'', ''progress'', ''reachability'', ''transcode.end'', ''transcodeSession.start'',
      ''transcodeSession.end'', ''transcodeSession.update'', ''preference'', ''update.statechange'',
      ''activity'', ''backgroundProcessingQueue'', ''status'', ''timeline'', ''account''}"

subsection \<open>What the session uses from outside the package\<close>

text \<open>
  \<open>Plex\<close> is declared in another file of the package; of its fields the session reads
  \<open>URL\<close> and \<open>Token\<close>. A \<open>url.URL\<close> is kept with the fields the struct literal of
  \<open>SubscribeToNotifications\<close> sets or leaves at their zero value. \<open>url.Parse\<close>,
  \<open>URL.String\<close> and \<open>websocket.DefaultDialer.Dial\<close> belong to other packages: they
  are parameters of the model. \<open>Dial\<close> returns a connection or an error; what the
  connection then does (what a read or a write returns, when a tick or the interrupt
  arrives) comes with each step of the session.
\<close>

record Plex =
  URL :: string
  Token :: string
  ClientIdentifier :: string

record url_URL =
  Scheme :: string
  Opaque :: string
  Host :: string
  Path :: string
  RawQuery :: string
  Fragment :: string

type_synonym http_Header = "(string \<times> string list) list"

record outside =
  url_Parse :: "string \<Rightarrow> go_error + url_URL"
  URL_String :: "url_URL \<Rightarrow> string"
  Dial :: "string \<Rightarrow> http_Header \<Rightarrow> go_error option"

definition CloseNormalClosure :: int where
  "CloseNormalClosure = 1000"

definition CloseNoStatusReceived :: int where
  "CloseNoStatusReceived = 1005"

definition TextMessage :: int where
  "TextMessage = 1"

definition CloseMessage :: int where
  "CloseMessage = 8"

text \<open>
  \<open>websocket.IsCloseError(err, codes...)\<close>: the error is a \<open>*CloseError\<close> whose code is
  one of \<open>codes\<close>. \<open>websocket.FormatCloseMessage(code, text)\<close>: the code as two bytes,
  the high one first, then the text; nothing for \<open>CloseNoStatusReceived\<close>.
\<close>

definition IsCloseError :: "go_error \<Rightarrow> int list \<Rightarrow> bool" where
  "IsCloseError err codes = (case err of CloseError code text \<Rightarrow> code \<in> set codes | _ \<Rightarrow> False)"

definition FormatCloseMessage :: "int \<Rightarrow> string \<Rightarrow> string" where
  "FormatCloseMessage closeCode text =
     (if closeCode = CloseNoStatusReceived then []
      else char_of (closeCode div 256) # char_of (closeCode mod 256) # text)"

subsection \<open>The session: \<open>SubscribeToNotifications\<close> and its two goroutines\<close>

text \<open>
  The session is a transition system. Its state holds the caller's state \<open>world\<close> (what
  the callbacks act on), where each goroutine stands (\<open>None\<close>: never started), whether
  the channel \<open>done\<close> is closed, and \<open>trace\<close>: every call the session has made on the
  caller, the connection, the channel and the ticker, in the order made. The two
  goroutines interleave statement by statement; a callback runs in one step. The two
  \<open>Println\<close> calls are left out.
\<close>

datatype task = Setup | ReadTask | HeartbeatTask

datatype event =
    DialCall string http_Header
  | CallErrCb task go_error
  | CallDoneCb task
  | ReadJSON "go_error + WebsocketNotification"
  | CallHandler string NotificationContainer
  | LogUnknown string
  | WriteMessage task int string
  | CloseDone
  | ConnClose task
  | TickerStop

datatype read_pc = ReadLoop | ReadCloseDone | ReadCloseConn | ReadReturned

datatype beat_pc = BeatSelect | BeatWait | BeatReturned

record 'w session =
  world :: 'w
  trace :: "event list"
  read_task :: "read_pc option"
  beat_task :: "beat_pc option"
  done_closed :: bool

text \<open>The arguments \<open>events\<close>, \<open>errCb\<close> and \<open>doneCb\<close> of \<open>SubscribeToNotifications\<close>.\<close>

record 'w subscription =
  table :: "'w NotificationEvents"
  errCb :: "go_error \<Rightarrow> 'w \<Rightarrow> 'w"
  doneCb :: "'w \<Rightarrow> 'w"

definition emit :: "event \<Rightarrow> 'w session \<Rightarrow> 'w session" where
  "emit ev s = s\<lparr>trace := trace s @ [ev]\<rparr>"

text \<open>
  The part of \<open>SubscribeToNotifications\<close> that runs in the caller: both early returns,
  and the state in which the two goroutines start.
\<close>

definition SubscribeToNotifications ::
  "outside \<Rightarrow> Plex \<Rightarrow> 'w subscription \<Rightarrow> 'w \<Rightarrow> 'w session" where
  "SubscribeToNotifications out p a w =
     (case url_Parse out (Plex.URL p) of
        Inl err \<Rightarrow>
          \<lparr>world = errCb a err w, trace = [CallErrCb Setup err],
           read_task = None, beat_task = None, done_closed = False\<rparr>
      | Inr plexURL \<Rightarrow>
          (let websocketURL =
                 \<lparr>Scheme = ''wss'', Opaque = [], Host = Host plexURL,
                  Path = ''/:/websockets/notifications'', RawQuery = [], Fragment = []\<rparr>;
               headers = [(''X-Plex-Token'', [Token p])];
               dialed = DialCall (URL_String out websocketURL) headers
           in case Dial out (URL_String out websocketURL) headers of
                Some err \<Rightarrow>
                  \<lparr>world = errCb a err w, trace = [dialed, CallErrCb Setup err],
                   read_task = None, beat_task = None, done_closed = False\<rparr>
              | None \<Rightarrow>
                  \<lparr>world = w, trace = [dialed],
                   read_task = Some ReadLoop, beat_task = Some BeatSelect, done_closed = False\<rparr>))"

text \<open>
  One pass of the read goroutine's loop, from what \<open>c.ReadJSON(&notif)\<close> returned: an
  error (\<open>Inl\<close>) or the decoded notification. The two returns leave the loop for the
  deferred calls; an unknown event name and a callback that has run go round again.
\<close>

definition read_iteration ::
  "'w subscription \<Rightarrow> go_error + WebsocketNotification \<Rightarrow> 'w session \<Rightarrow> 'w session" where
  "read_iteration a r s0 =
     (let s = emit (ReadJSON r) s0
      in case r of
           Inl err \<Rightarrow>
             if IsCloseError err [CloseNormalClosure]
             then (emit (CallDoneCb ReadTask) s)\<lparr>world := doneCb a (world s), read_task := Some ReadCloseDone\<rparr>
             else (emit (CallErrCb ReadTask err) s)
                    \<lparr>world := errCb a err (world s), read_task := Some ReadCloseDone\<rparr>
         | Inr notif \<Rightarrow>
             (let n = NotificationContainer notif
              in case events (table a) (NotificationContainer.Type n) of
                   None \<Rightarrow> emit (LogUnknown (NotificationContainer.Type n)) s
                 | Some eventCallback \<Rightarrow>
                     (emit (CallHandler (NotificationContainer.Type n) n) s)
                       \<lparr>world := eventCallback n (world s)\<rparr>))"

text \<open>
  What can happen next in a session:
  \<^item> \<open>Read r\<close>: the read goroutine's \<open>ReadJSON\<close> returns \<open>r\<close>;
  \<^item> \<open>Deferred\<close>: the read goroutine, having returned from its loop, runs its next deferred
    call: \<open>close(done)\<close> first, \<open>c.Close()\<close> second (the reverse of their \<open>defer\<close>s);
  \<^item> \<open>Tick t werr\<close>: the heartbeat receives the time \<open>t\<close> (as \<open>t.String()\<close>) from the
    ticker and its \<open>WriteMessage\<close> returns \<open>werr\<close>;
  \<^item> \<open>Interrupt werr\<close>: the heartbeat receives from \<open>interrupt\<close>, and the write of the
    close frame returns \<open>werr\<close>, which the code drops;
  \<^item> \<open>Done\<close>: the heartbeat, waiting, receives from the closed channel \<open>done\<close>;
  \<^item> \<open>Timeout\<close>: the heartbeat, waiting, receives from \<open>time.After(time.Second)\<close>.

  \<open>step\<close> is \<open>None\<close> where the goroutine is not at that statement.
\<close>

datatype input =
    Read "go_error + WebsocketNotification"
  | Deferred
  | Tick string "go_error option"
  | Interrupt "go_error option"
  | Done
  | Timeout

fun step :: "'w subscription \<Rightarrow> input \<Rightarrow> 'w session \<Rightarrow> 'w session option" where
  "step a (Read r) s =
     (if read_task s = Some ReadLoop then Some (read_iteration a r s) else None)"
| "step a Deferred s =
     (if read_task s = Some ReadCloseDone
      then Some ((emit CloseDone s)\<lparr>read_task := Some ReadCloseConn, done_closed := True\<rparr>)
      else if read_task s = Some ReadCloseConn
      then Some ((emit (ConnClose ReadTask) s)\<lparr>read_task := Some ReadReturned\<rparr>)
      else None)"
| "step a (Tick t werr) s =
     (if beat_task s = Some BeatSelect
      then
        (let s1 = emit (WriteMessage HeartbeatTask TextMessage t) s
         in case werr of
              None \<Rightarrow> Some s1
            | Some err \<Rightarrow>
                Some ((emit (CallErrCb HeartbeatTask err) s1)\<lparr>world := errCb a err (world s1)\<rparr>))
      else None)"
| "step a (Interrupt werr) s =
     (if beat_task s = Some BeatSelect
      then Some ((emit (WriteMessage HeartbeatTask CloseMessage
                          (FormatCloseMessage CloseNormalClosure [])) s)
                   \<lparr>beat_task := Some BeatWait\<rparr>)
      else None)"
| "step a Done s =
     (if beat_task s = Some BeatWait \<and> done_closed s
      then Some ((emit TickerStop s)\<lparr>beat_task := Some BeatReturned\<rparr>)
      else None)"
| "step a Timeout s =
     (if beat_task s = Some BeatWait
      then Some ((emit TickerStop (emit (ConnClose HeartbeatTask) s))\<lparr>beat_task := Some BeatReturned\<rparr>)
      else None)"

fun run :: "'w subscription \<Rightarrow> input list \<Rightarrow> 'w session \<Rightarrow> 'w session option" where
  "run a [] s = Some s"
| "run a (i # is) s = (case step a i s of None \<Rightarrow> None | Some s' \<Rightarrow> run a is s')"

subsection \<open>Reading a trace\<close>

text \<open>
  The calls of one kind in a trace, and the steps of one kind in a schedule, for the
  statements below.
\<close>

fun callback_by :: "task \<Rightarrow> event \<Rightarrow> bool" where
  "callback_by t (CallErrCb t' err) = (t' = t)"
| "callback_by t (CallDoneCb t') = (t' = t)"
| "callback_by t _ = False"

fun is_callback :: "event \<Rightarrow> bool" where
  "is_callback (CallErrCb t err) = True"
| "is_callback (CallDoneCb t) = True"
| "is_callback _ = False"

fun is_CallDoneCb :: "event \<Rightarrow> bool" where
  "is_CallDoneCb (CallDoneCb t) = True"
| "is_CallDoneCb _ = False"

fun close_by :: "task \<Rightarrow> event \<Rightarrow> bool" where
  "close_by t (ConnClose t') = (t' = t)"
| "close_by t _ = False"

fun is_ConnClose :: "event \<Rightarrow> bool" where
  "is_ConnClose (ConnClose t) = True"
| "is_ConnClose _ = False"

fun is_DialCall :: "event \<Rightarrow> bool" where
  "is_DialCall (DialCall u h) = True"
| "is_DialCall _ = False"

fun of_read_loop :: "event \<Rightarrow> bool" where
  "of_read_loop (ReadJSON r) = True"
| "of_read_loop (CallHandler k n) = True"
| "of_read_loop _ = False"

fun is_close_frame :: "event \<Rightarrow> bool" where
  "is_close_frame (WriteMessage t m b) = (m = CloseMessage)"
| "is_close_frame _ = False"

fun failed_tick :: "input \<Rightarrow> bool" where
  "failed_tick (Tick t (Some err)) = True"
| "failed_tick _ = False"

fun is_Timeout :: "input \<Rightarrow> bool" where
  "is_Timeout Timeout = True"
| "is_Timeout _ = False"

fun is_Interrupt :: "input \<Rightarrow> bool" where
  "is_Interrupt (Interrupt werr) = True"
| "is_Interrupt _ = False"

fun reads_of :: "input list \<Rightarrow> (go_error + WebsocketNotification) list" where
  "reads_of [] = []"
| "reads_of (Read r # is) = r # reads_of is"
| "reads_of (i # is) = reads_of is"

text \<open>
  The read goroutine has left its loop (it is in, or past, its deferred calls); the
  heartbeat has received the interrupt.
\<close>

definition left_loop :: "'w session \<Rightarrow> bool" where
  "left_loop s = (read_task s \<noteq> None \<and> read_task s \<noteq> Some ReadLoop)"

definition cancelled :: "'w session \<Rightarrow> bool" where
  "cancelled s = (beat_task s = Some BeatWait \<or> beat_task s = Some BeatReturned)"

text \<open>
  What the claims on dispatch and order expect of one frame, in their words: the
  callback registered for the frame's type is invoked with the frame's container, after
  the frame was read; a frame whose type has no entry invokes nothing.
\<close>

definition expected_calls :: "'w subscription \<Rightarrow> go_error + WebsocketNotification \<Rightarrow> event list" where
  "expected_calls a r =
     (case r of
        Inl err \<Rightarrow> [ReadJSON r]
      | Inr notif \<Rightarrow>
          (if NotificationContainer.Type (NotificationContainer notif) \<in> dom (events (table a))
           then [ReadJSON r,
                 CallHandler (NotificationContainer.Type (NotificationContainer notif))
                   (NotificationContainer notif)]
           else [ReadJSON r]))"

definition deliver :: "'w subscription \<Rightarrow> 'w \<Rightarrow> WebsocketNotification \<Rightarrow> 'w" where
  "deliver a w notif =
     (case events (table a) (NotificationContainer.Type (NotificationContainer notif)) of
        None \<Rightarrow> w
      | Some cb \<Rightarrow> cb (NotificationContainer notif) w)"

subsection \<open>A session to run\<close>

text \<open>
  A caller that counts: its state is the number of \<open>errCb\<close> calls, the number of
  \<open>doneCb\<close> calls and the containers its \<open>playing\<close> callback received. An address
  parses when it starts with \<open>http://\<close>, and the dial succeeds unless the token is empty.
\<close>

record counts =
  errors :: nat
  dones :: nat
  played :: "NotificationContainer list"

definition counting :: "counts subscription" where
  "counting =
     \<lparr>table = OnPlaying (\<lambda>n w. w\<lparr>played := played w @ [n]\<rparr>) NewNotificationEvents,
      errCb = (\<lambda>err w. w\<lparr>errors := errors w + 1\<rparr>),
      doneCb = (\<lambda>w. w\<lparr>dones := dones w + 1\<rparr>)\<rparr>"

definition no_counts :: counts where
  "no_counts = \<lparr>errors = 0, dones = 0, played = []\<rparr>"

definition plain_outside :: outside where
  "plain_outside =
     \<lparr>url_Parse = (\<lambda>s. if take 7 s = ''http://''
                       then Inr \<lparr>Scheme = ''http'', Opaque = [], Host = drop 7 s, Path = [],
                                RawQuery = [], Fragment = []\<rparr>
                       else Inl (OtherError ''missing protocol scheme'')),
      URL_String = (\<lambda>u. Scheme u @ ''://'' @ Host u @ Path u),
      Dial = (\<lambda>u h. if h = [(''X-Plex-Token'', [[]])] then Some (OtherError ''bad handshake'') else None)\<rparr>"

definition server :: Plex where
  "server = \<lparr>URL = ''http://plex.local:32400'', Token = ''secret'', ClientIdentifier = ''client''\<rparr>"

definition empty_container :: NotificationContainer where
  "empty_container =
     \<lparr>TimelineEntry = [], ActivityNotification = [], StatusNotification = [],
      PlaySessionStateNotification = [], ReachabilityNotification = [],
      BackgroundProcessingQueueEventNotification = [], TranscodeSession = [], Setting = [],
      Size = 0, Type = []\<rparr>"

definition frame :: "string \<Rightarrow> int64 \<Rightarrow> WebsocketNotification" where
  "frame k n = \<lparr>NotificationContainer = empty_container\<lparr>Size := n, Type := k\<rparr>\<rparr>"

section \<open>Properties of timestamp.go\<close>

subsection \<open>Parsing what \<open>FormatInt\<close> wrote\<close>

lemma Unix_time_Unix: "Time_Unix (time_Unix q 0) = q"
  by (simp add: Time_Unix_def unixSec_def sec_def time_Unix_def unixTime_def
      internalToUnix_def word_sless_alt word_sle_eq)

lemma of_char_digit_char: "d < 10 \<Longrightarrow> (of_char (digit_char d) :: nat) = 48 + d"
  by (simp add: digit_char_def)

lemma is_digit_digit_char: "d < 10 \<Longrightarrow> is_digit (digit_char d)"
  by (simp add: is_digit_def of_char_digit_char)

lemma formatBits_digits: "list_all is_digit (formatBits u)"
  by (induction u rule: formatBits.induct) (subst formatBits.simps, simp add: is_digit_digit_char)

lemma formatBits_nonempty: "formatBits u \<noteq> []"
  by (subst formatBits.simps) simp

lemma ParseUint_loop_append:
  "ParseUint_loop s0 (xs @ ys) n =
     (if snd (ParseUint_loop s0 xs n) = None then ParseUint_loop s0 ys (fst (ParseUint_loop s0 xs n))
      else ParseUint_loop s0 xs n)"
  by (induction xs arbitrary: n) (simp_all add: Let_def)

lemma not_above_maxUint64: "\<not> (18446744073709551615 :: uint64) < x"
proof -
  have "unat x < 2 ^ 64" using unsigned_less [of x] by simp
  then show ?thesis by (simp add: word_less_nat_alt)
qed

lemma ParseUint_loop_digit:
  assumes d: "d < 10" and k: "10 * k + d < 2 ^ 64"
  shows "ParseUint_loop s0 [digit_char d] (of_nat k) = (of_nat (10 * k + d), None)"
proof -
  let ?n = "of_nat k :: uint64"
  have uk: "unat ?n = k" using k by (simp add: unat_of_nat take_bit_nat_eq_self)
  have k_small: "k < 1844674407370955162" using k by simp
  have not_cut: "\<not> (maxUint64 div 10 + 1 \<le> ?n)"
    using k_small uk by (simp add: maxUint64_def word_le_nat_alt)
  have n10: "unat (?n * 10) = 10 * k"
    using k uk by (simp add: unat_word_ariths)
  have dd: "(of_char (digit_char d) :: nat) - 48 = d"
    using d by (simp add: of_char_digit_char)
  have n1: "unat (?n * 10 + of_nat d) = 10 * k + d"
    using k d n10 by (simp add: unat_word_ariths unat_of_nat take_bit_nat_eq_self)
  have no_wrap: "\<not> (?n * 10 + of_nat d < ?n * 10)"
    using n1 n10 by (simp add: word_less_nat_alt)
  have "ParseUint_loop s0 [digit_char d] ?n = (?n * 10 + of_nat d, None)"
    using not_cut no_wrap by (simp add: Let_def is_digit_digit_char d dd not_above_maxUint64)
  then show ?thesis by (simp add: mult.commute)
qed

lemma ParseUint_loop_formatBits:
  "u < 2 ^ 64 \<Longrightarrow> ParseUint_loop s0 (formatBits u) 0 = (of_nat u, None)"
proof (induction u rule: formatBits.induct)
  case (1 u)
  show ?case
  proof (cases "u < 10")
    case True
    then show ?thesis
      using ParseUint_loop_digit [of u 0 s0] by (subst formatBits.simps) simp
  next
    case False
    have "u div 10 < 2 ^ 64" using "1.prems" by simp
    with "1.IH" False have ih: "ParseUint_loop s0 (formatBits (u div 10)) 0 = (of_nat (u div 10), None)"
      by simp
    have "10 * (u div 10) + u mod 10 < 2 ^ 64" using "1.prems" by simp
    then have "ParseUint_loop s0 [digit_char (u mod 10)] (of_nat (u div 10)) = (of_nat (10 * (u div 10) + u mod 10), None)"
      by (intro ParseUint_loop_digit) simp_all
    then show ?thesis
      using False ih by (subst formatBits.simps) (simp add: ParseUint_loop_append)
  qed
qed

lemma mod_shift:
  fixes u h :: int
  assumes "0 \<le> u" "u < 2 * h"
  shows "(u + h) mod (2 * h) - h = (if u < h then u else u - 2 * h)"
proof (cases "u < h")
  case True
  then have "(u + h) mod (2 * h) = u + h" using assms by (intro mod_pos_pos_trivial) linarith+
  then show ?thesis using True by simp
next
  case False
  have "(u + h) mod (2 * h) = (u + h - 2 * h) mod (2 * h)" by (simp only: minus_mod_self2)
  also have "\<dots> = u + h - 2 * h" using False assms by (intro mod_pos_pos_trivial) linarith+
  finally show ?thesis using False by simp
qed

lemma sint_64: "sint w = (if uint w < 2 ^ 63 then uint w else uint w - 2 ^ 64)" for w :: int64
proof -
  have b: "uint w < 2 * 2 ^ 63" using uint_bounded [of w] by simp
  have "sint w = (uint w + 2 ^ 63) mod (2 * 2 ^ 63) - 2 ^ 63"
    by (simp add: sint_uint signed_take_bit_eq_take_bit_shift take_bit_eq_mod)
  also have "\<dots> = (if uint w < 2 ^ 63 then uint w else uint w - 2 * 2 ^ 63)"
    using b by (intro mod_shift) simp_all
  finally show ?thesis by simp
qed

lemma sless_0_iff: "i <s 0 \<longleftrightarrow> 2 ^ 63 \<le> uint i" for i :: int64
proof -
  have "uint i < 2 ^ 64" using uint_bounded [of i] by simp
  moreover have "0 \<le> uint i" by simp
  ultimately show ?thesis unfolding word_sless_alt sint_64 sint_0 by (simp split: if_splits)
qed

lemma uint_neg_64: "uint (- i) = (if i = 0 then 0 else 2 ^ 64 - uint i)" for i :: int64
proof (cases "i = 0")
  case True then show ?thesis by simp
next
  case False
  then have nz: "uint i \<noteq> 0" by (simp add: uint_0_iff)
  have b: "uint i < 2 ^ 64" using uint_bounded [of i] by simp
  have p: "0 \<le> uint i" by simp
  have m: "uint i mod 2 ^ 64 = uint i" using b p by (intro mod_pos_pos_trivial)
  have "uint (- i) = (- uint i) mod 2 ^ 64" by (simp add: uint_word_ariths)
  also have "\<dots> = 2 ^ 64 - uint i" using nz m by (simp only: zmod_zminus1_eq_if if_False)
  finally show ?thesis using False by simp
qed

lemma neg_unat: "i <s 0 \<Longrightarrow> uint (- i) \<le> 2 ^ 63" for i :: int64
  by (auto simp: sless_0_iff uint_neg_64)

lemma nonneg_unat: "\<not> i <s 0 \<Longrightarrow> uint i < 2 ^ 63" for i :: int64
  by (simp add: sless_0_iff)

lemma ParseUint_formatBits: "u < 2 ^ 64 \<Longrightarrow> ParseUint (formatBits u) = (of_nat u, None)"
  by (simp add: ParseUint_def formatBits_nonempty ParseUint_loop_formatBits)

lemma formatBits_hd: "\<exists>c cs. formatBits u = c # cs \<and> is_digit c"
  using formatBits_digits [of u] formatBits_nonempty [of u] by (cases "formatBits u") auto

lemma is_digit_not_sign: "is_digit c \<Longrightarrow> c \<noteq> CHR ''+'' \<and> c \<noteq> CHR ''-''"
  by (auto simp: is_digit_def)

lemma ParseInt_FormatInt: "ParseInt (FormatInt i) = (i, None)"
proof (cases "i <s 0")
  case True
  let ?u = "unat (- i)"
  have b: "?u < 2 ^ 64" using unsigned_less [of "- i"] by simp
  have un: "ParseUint (formatBits ?u) = (- i, None)"
    using ParseUint_formatBits [OF b] by simp
  have "uint (- i) \<le> 2 ^ 63" using True by (rule neg_unat)
  then have le: "\<not> (push_bit 63 (1 :: uint64) < - i)"
    by (simp add: word_less_def)
  show ?thesis
    using True un le by (simp add: FormatInt_def ParseInt_def Let_def)
next
  case False
  let ?u = "unat i"
  have b: "?u < 2 ^ 64" using unsigned_less [of i] by simp
  have un: "ParseUint (formatBits ?u) = (i, None)"
    using ParseUint_formatBits [OF b] by simp
  obtain c cs where f: "formatBits ?u = c # cs" and c: "is_digit c"
    using formatBits_hd by blast
  have "uint i < 2 ^ 63" using False by (rule nonneg_unat)
  then have le: "\<not> (push_bit 63 (1 :: uint64) \<le> i)"
    by (simp add: word_le_def)
  have "ParseInt (c # cs) = (i, None)"
    using un le is_digit_not_sign [OF c] unfolding f by (simp add: ParseInt_def Let_def)
  then show ?thesis using False f by (simp add: FormatInt_def)
qed

lemma ParseUint_loop_ok_digits:
  "snd (ParseUint_loop s0 cs n) = None \<Longrightarrow> list_all is_digit cs"
  by (induction cs arbitrary: n) (auto simp: Let_def split: if_splits)

lemma ParseUint_ok_digits: "snd (ParseUint s) = None \<Longrightarrow> s \<noteq> [] \<and> list_all is_digit s"
  by (auto simp: ParseUint_def dest: ParseUint_loop_ok_digits split: if_splits)

lemma ParseUint_loop_range:
  "snd (ParseUint_loop s0 cs n) = Some e \<Longrightarrow> is_ErrRange e \<Longrightarrow> fst (ParseUint_loop s0 cs n) = - 1"
  by (induction cs arbitrary: n)
    (auto simp: Let_def is_ErrRange_def syntaxError_def rangeError_def split: if_splits)

lemma ParseUint_range:
  "snd (ParseUint s) = Some e \<Longrightarrow> is_ErrRange e \<Longrightarrow> fst (ParseUint s) = - 1"
  by (auto simp: ParseUint_def is_ErrRange_def syntaxError_def dest: ParseUint_loop_range split: if_splits)

lemma ParseInt_ok_ParseUint:
  assumes "snd (ParseInt (c # cs)) = None"
  shows "snd (ParseUint (if c = CHR ''+'' then cs else if c = CHR ''-'' then cs else c # cs)) = None"
proof (rule ccontr)
  let ?s1 = "if c = CHR ''+'' then cs else if c = CHR ''-'' then cs else c # cs"
  assume "snd (ParseUint ?s1) \<noteq> None"
  then obtain e where e: "snd (ParseUint ?s1) = Some e" by blast
  obtain un where p: "ParseUint ?s1 = (un, Some e)" using e by (cases "ParseUint ?s1") simp
  show False
  proof (cases "is_ErrRange e")
    case False
    then show False using assms p by (simp add: ParseInt_def Let_def)
  next
    case True
    then have "un = 18446744073709551615" using ParseUint_range [OF e] p by simp
    then show False using assms p True by (simp add: ParseInt_def Let_def split: if_splits)
  qed
qed

lemma ParseInt_ok_decimal:
  assumes ok: "snd (ParseInt s) = None"
  shows "is_decimal_integer s"
proof (cases s)
  case Nil
  then show ?thesis using ok by (simp add: ParseInt_def)
next
  case (Cons c cs)
  let ?s1 = "if c = CHR ''+'' then cs else if c = CHR ''-'' then cs else c # cs"
  have "snd (ParseUint ?s1) = None" using ok unfolding Cons by (rule ParseInt_ok_ParseUint)
  then have "?s1 \<noteq> [] \<and> list_all is_digit ?s1" by (rule ParseUint_ok_digits)
  then show ?thesis
    unfolding Cons is_decimal_integer_def by (auto split: if_splits)
qed

lemma UnmarshalJSON_MarshalJSON:
  "UnmarshalJSON r (fst (MarshalJSON t)) = (time_Unix (Timestamp_Unix t) 0, None)"
  by (simp add: UnmarshalJSON_def MarshalJSON_def ParseInt_FormatInt Timestamp_Unix_def)

lemma UnmarshalJSON_error: "\<not> is_decimal_integer s \<Longrightarrow> snd (UnmarshalJSON r s) \<noteq> None \<and> fst (UnmarshalJSON r s) = r"
  using ParseInt_ok_decimal [of s] by (auto simp: UnmarshalJSON_def Let_def split: prod.splits)

subsection \<open>The round trip through JSON\<close>

text \<open>
  Claim C10. For every \<open>Timestamp t\<close>, \<open>MarshalJSON\<close> succeeds, and \<open>UnmarshalJSON\<close> on
  the bytes it produced succeeds, whatever the receiver held, and leaves a \<open>Timestamp\<close>
  whose \<open>Unix()\<close> is \<open>t.Unix()\<close>; the result has no sub-second part and the location
  \<open>Local\<close>, whatever \<open>t\<close> had. On an input that is not a decimal integer,
  \<open>UnmarshalJSON\<close> returns an error and leaves the receiver as it was.
\<close>

theorem Timestamp_json_round_trip:
  "snd (MarshalJSON t) = None \<and>
   snd (UnmarshalJSON r (fst (MarshalJSON t))) = None \<and>
   Timestamp_Unix (fst (UnmarshalJSON r (fst (MarshalJSON t)))) = Timestamp_Unix t \<and>
   wall (fst (UnmarshalJSON r (fst (MarshalJSON t)))) = 0 \<and>
   loc (fst (UnmarshalJSON r (fst (MarshalJSON t)))) = Local \<and>
   (\<not> is_decimal_integer s \<longrightarrow> snd (UnmarshalJSON r s) \<noteq> None \<and> fst (UnmarshalJSON r s) = r)"
proof -
  have m: "snd (MarshalJSON t) = None" by (simp add: MarshalJSON_def)
  have u: "UnmarshalJSON r (fst (MarshalJSON t)) = (time_Unix (Timestamp_Unix t) 0, None)"
    by (rule UnmarshalJSON_MarshalJSON)
  have x: "Timestamp_Unix (time_Unix (Timestamp_Unix t) 0) = Timestamp_Unix t"
    using Unix_time_Unix [of "Timestamp_Unix t"] by (simp add: Timestamp_Unix_def)
  have w: "wall (time_Unix q 0) = 0 \<and> loc (time_Unix q 0) = Local" for q
    by (simp add: time_Unix_def unixTime_def word_sless_alt word_sle_eq)
  show ?thesis
    using m x w UnmarshalJSON_error [of s r] by (simp add: u)
qed

theorem Timestamp_json_round_trip_witness:
  "\<not> is_decimal_integer ''12a'' \<and>
   UnmarshalJSON \<lparr>wall = 7, ext = 0, loc = Zone ''CET''\<rparr> ''12a'' =
     (\<lparr>wall = 7, ext = 0, loc = Zone ''CET''\<rparr>, Some (NumError ''ParseInt'' ''12a'' ErrSyntax)) \<and>
   MarshalJSON \<lparr>wall = 123, ext = 63735596800, loc = UTC\<rparr> = (''1600000000'', None) \<and>
   Timestamp_Unix (fst (UnmarshalJSON \<lparr>wall = 7, ext = 0, loc = Zone ''CET''\<rparr> ''1600000000'')) =
     Timestamp_Unix \<lparr>wall = 123, ext = 63735596800, loc = UTC\<rparr>"
proof -
  let ?r = "\<lparr>wall = 7, ext = 0, loc = Zone ''CET''\<rparr>"
  let ?t = "\<lparr>wall = 123, ext = 63735596800, loc = UTC\<rparr>"
  have h: "\<not> is_decimal_integer ''12a''"
    by (simp add: is_decimal_integer_def is_digit_def)
  have p: "ParseInt ''12a'' = (0, Some (NumError ''ParseInt'' ''12a'' ErrSyntax))"
    by (simp add: ParseInt_def ParseUint_def Let_def is_digit_def syntaxError_def rangeError_def
        is_ErrRange_def set_Func_Num_def maxUint64_def word_le_nat_alt word_less_nat_alt)
  have e: "UnmarshalJSON ?r ''12a'' = (?r, Some (NumError ''ParseInt'' ''12a'' ErrSyntax))"
    by (simp add: UnmarshalJSON_def p)
  have m: "MarshalJSON ?t = (''1600000000'', None)"
    by (simp add: MarshalJSON_def Time_Unix_def unixSec_def sec_def hasMonotonic_def
        internalToUnix_def unixToInternal_def secondsPerDay_def FormatInt_def formatBits.simps
        digit_char_def word_sless_alt char_of_eq_iff)
  from Timestamp_json_round_trip [of ?t ?r "''12a''"]
  have "Timestamp_Unix (fst (UnmarshalJSON ?r (fst (MarshalJSON ?t)))) = Timestamp_Unix ?t"
    by blast
  then show ?thesis using h e m by simp
qed

section \<open>Properties of websocket_client.go\<close>

subsection \<open>The dispatch table\<close>

lemma dom_NewNotificationEvents:
  "dom (events NewNotificationEvents) = recognized_kinds"
  by (simp add: NewNotificationEvents_def recognized_kinds_def dom_map_of_conv_image_fst)

lemma NewNotificationEvents_Some:
  assumes "events NewNotificationEvents k = Some v"
  shows "v = noop"
proof -
  from assms have "(k, v) \<in> set
        [(''playing'', noop),
         (''progress'', noop),
         (''reachability'', noop),
         (''transcode.end'', noop),
         (''transcodeSession.start'', noop),
         (''transcodeSession.end'', noop),
         (''transcodeSession.update'', noop),
         (''preference'', noop),
         (''update.statechange'', noop),
         (''activity'', noop),
         (''backgroundProcessingQueue'', noop),
         (''status'', noop),
         (''timeline'', noop),
         (''account'', noop)]"
    unfolding NewNotificationEvents_def by (intro map_of_SomeD) simp
  then show ?thesis by auto
qed

lemma NewNotificationEvents_lookup:
  "events (NewNotificationEvents :: 'w NotificationEvents) k =
     (if k \<in> recognized_kinds then Some noop else None)"
proof (cases "events (NewNotificationEvents :: 'w NotificationEvents) k")
  case None
  then have "k \<notin> dom (events (NewNotificationEvents :: 'w NotificationEvents))"
    by (simp add: domIff)
  then show ?thesis using None by (simp add: dom_NewNotificationEvents)
next
  case (Some v)
  then have "k \<in> dom (events (NewNotificationEvents :: 'w NotificationEvents))"
    by (simp add: domIff)
  then show ?thesis using Some NewNotificationEvents_Some [OF Some]
    by (simp add: dom_NewNotificationEvents)
qed

text \<open>
  Claim C9. The table of \<open>NewNotificationEvents\<close> maps each of the fourteen recognized
  kinds to the callback that does nothing, and has no other key. \<open>OnPlaying\<close> and
  \<open>OnTranscodeUpdate\<close> on it overwrite an entry: the keys stay the recognized kinds. On
  any table each sets its own key and leaves every other key alone, so the last
  registration for a key is the one found, and an earlier one for the same key is gone.
\<close>

theorem NewNotificationEvents_table:
  "events NewNotificationEvents k = (if k \<in> recognized_kinds then Some noop else None) \<and>
   noop n w = w \<and>
   dom (events (OnPlaying fn NewNotificationEvents)) = recognized_kinds \<and>
   dom (events (OnTranscodeUpdate fn NewNotificationEvents)) = recognized_kinds \<and>
   events (OnPlaying fn e) k = (if k = ''playing'' then Some fn else events e k) \<and>
   events (OnTranscodeUpdate fn e) k =
     (if k = ''transcodeSession.update'' then Some fn else events e k) \<and>
   OnPlaying fn (OnPlaying g e) = OnPlaying fn e \<and>
   OnTranscodeUpdate fn (OnTranscodeUpdate g e) = OnTranscodeUpdate fn e"
proof -
  have p: "''playing'' \<in> recognized_kinds" and t: "''transcodeSession.update'' \<in> recognized_kinds"
    by (simp_all add: recognized_kinds_def)
  have dp: "dom (events (OnPlaying fn NewNotificationEvents)) = recognized_kinds"
    using p by (auto simp: OnPlaying_def dom_NewNotificationEvents)
  have dt: "dom (events (OnTranscodeUpdate fn NewNotificationEvents)) = recognized_kinds"
    using t by (auto simp: OnTranscodeUpdate_def dom_NewNotificationEvents)
  show ?thesis
    using dp dt by (simp add: NewNotificationEvents_lookup noop_def OnPlaying_def OnTranscodeUpdate_def)
qed

subsection \<open>Setting up the connection\<close>

lemma step_not_started:
  "read_task s = None \<Longrightarrow> beat_task s = None \<Longrightarrow> step a i s = None"
  by (cases i) simp_all

text \<open>
  Claim C4. When \<open>p.URL\<close> parses, \<open>SubscribeToNotifications\<close> dials once, and what it
  dials is the string of the URL with scheme \<open>wss\<close>, the host of the parsed address, the
  path \<open>/:/websockets/notifications\<close> and no query (nor opaque part or fragment), with
  the one header \<open>X-Plex-Token\<close> holding \<open>p.Token\<close>.
\<close>

theorem Subscribe_dials_wss:
  assumes "url_Parse out (Plex.URL p) = Inr plexURL"
  shows "filter is_DialCall (trace (SubscribeToNotifications out p a w)) =
           [DialCall
              (URL_String out
                 \<lparr>Scheme = ''wss'', Opaque = [], Host = Host plexURL,
                  Path = ''/:/websockets/notifications'', RawQuery = [], Fragment = []\<rparr>)
              [(''X-Plex-Token'', [Token p])]]"
  using assms by (simp add: SubscribeToNotifications_def Let_def split: option.splits)

theorem Subscribe_dials_wss_witness:
  "url_Parse plain_outside (Plex.URL server) =
     Inr \<lparr>Scheme = ''http'', Opaque = [], Host = ''plex.local:32400'', Path = [],
          RawQuery = [], Fragment = []\<rparr> \<and>
   filter is_DialCall (trace (SubscribeToNotifications plain_outside server counting no_counts)) =
     [DialCall ''wss://plex.local:32400/:/websockets/notifications''
        [(''X-Plex-Token'', [''secret''])]]"
proof -
  have h: "url_Parse plain_outside (Plex.URL server) =
     Inr \<lparr>Scheme = ''http'', Opaque = [], Host = ''plex.local:32400'', Path = [],
          RawQuery = [], Fragment = []\<rparr>"
    by (simp add: plain_outside_def server_def)
  show ?thesis
    using h Subscribe_dials_wss [OF h, of counting no_counts]
    by (simp add: plain_outside_def server_def)
qed

text \<open>
  Claim C5. When \<open>url.Parse\<close> fails, the session consists of one call of \<open>errCb\<close> with
  that error; when the dial fails, \<open>errCb\<close> is called once with the dial's error and
  nothing else is called back. In both cases neither goroutine is started, so no step
  of the session is possible afterwards.
\<close>

theorem Subscribe_setup_failure:
  "(url_Parse out (Plex.URL p) = Inl err \<longrightarrow>
      SubscribeToNotifications out p a w =
        \<lparr>world = errCb a err w, trace = [CallErrCb Setup err],
         read_task = None, beat_task = None, done_closed = False\<rparr> \<and>
      step a i (SubscribeToNotifications out p a w) = None) \<and>
   (url_Parse out (Plex.URL p) = Inr plexURL \<and>
    Dial out
      (URL_String out
         \<lparr>Scheme = ''wss'', Opaque = [], Host = Host plexURL,
          Path = ''/:/websockets/notifications'', RawQuery = [], Fragment = []\<rparr>)
      [(''X-Plex-Token'', [Token p])] = Some err \<longrightarrow>
      filter is_callback (trace (SubscribeToNotifications out p a w)) = [CallErrCb Setup err] \<and>
      world (SubscribeToNotifications out p a w) = errCb a err w \<and>
      read_task (SubscribeToNotifications out p a w) = None \<and>
      beat_task (SubscribeToNotifications out p a w) = None \<and>
      step a i (SubscribeToNotifications out p a w) = None)"
  by (auto simp: SubscribeToNotifications_def Let_def step_not_started)

lemma session_started:
  "SubscribeToNotifications plain_outside server counting no_counts =
     \<lparr>world = no_counts,
      trace = [DialCall ''wss://plex.local:32400/:/websockets/notifications''
                 [(''X-Plex-Token'', [''secret''])]],
      read_task = Some ReadLoop, beat_task = Some BeatSelect, done_closed = False\<rparr>"
  by (simp add: SubscribeToNotifications_def plain_outside_def server_def Let_def)

lemma frame_Type: "NotificationContainer.Type (NotificationContainer (frame k n)) = k"
  by (simp add: frame_def)

lemma counting_callbacks:
  "errCb counting err w = w\<lparr>errors := errors w + 1\<rparr>"
  "doneCb counting w = w\<lparr>dones := dones w + 1\<rparr>"
  "events (table counting) ''playing'' = Some (\<lambda>n w. w\<lparr>played := played w @ [n]\<rparr>)"
  "events (table counting) ''bogus'' = None"
  by (simp_all add: counting_def OnPlaying_def NewNotificationEvents_lookup recognized_kinds_def)

theorem Subscribe_setup_failure_witness:
  "url_Parse plain_outside (Plex.URL (server\<lparr>URL := ''plex.local''\<rparr>)) =
     Inl (OtherError ''missing protocol scheme'') \<and>
   SubscribeToNotifications plain_outside (server\<lparr>URL := ''plex.local''\<rparr>) counting no_counts =
     \<lparr>world = no_counts\<lparr>errors := 1\<rparr>,
      trace = [CallErrCb Setup (OtherError ''missing protocol scheme'')],
      read_task = None, beat_task = None, done_closed = False\<rparr> \<and>
   step counting (Tick ''t'' None)
     (SubscribeToNotifications plain_outside (server\<lparr>URL := ''plex.local''\<rparr>) counting no_counts) = None \<and>
   url_Parse plain_outside (Plex.URL (server\<lparr>Token := []\<rparr>)) =
     Inr \<lparr>Scheme = ''http'', Opaque = [], Host = ''plex.local:32400'', Path = [],
          RawQuery = [], Fragment = []\<rparr> \<and>
   Dial plain_outside ''wss://plex.local:32400/:/websockets/notifications''
     [(''X-Plex-Token'', [Token (server\<lparr>Token := []\<rparr>)])] = Some (OtherError ''bad handshake'') \<and>
   filter is_callback
     (trace (SubscribeToNotifications plain_outside (server\<lparr>Token := []\<rparr>) counting no_counts)) =
     [CallErrCb Setup (OtherError ''bad handshake'')] \<and>
   world (SubscribeToNotifications plain_outside (server\<lparr>Token := []\<rparr>) counting no_counts) =
     no_counts\<lparr>errors := 1\<rparr> \<and>
   step counting (Read (Inr (frame ''playing'' 1)))
     (SubscribeToNotifications plain_outside (server\<lparr>Token := []\<rparr>) counting no_counts) = None"
proof -
  let ?p1 = "server\<lparr>URL := ''plex.local''\<rparr>"
  let ?p2 = "server\<lparr>Token := []\<rparr>"
  let ?u = "\<lparr>Scheme = ''http'', Opaque = [], Host = ''plex.local:32400'', Path = [],
          RawQuery = [], Fragment = []\<rparr>"
  have h1: "url_Parse plain_outside (Plex.URL ?p1) = Inl (OtherError ''missing protocol scheme'')"
    by (simp add: plain_outside_def server_def)
  have h2: "url_Parse plain_outside (Plex.URL ?p2) = Inr ?u"
    by (simp add: plain_outside_def server_def)
  have s: "URL_String plain_outside 
         \<lparr>Scheme = ''wss'', Opaque = [], Host = Host ?u,
          Path = ''/:/websockets/notifications'', RawQuery = [], Fragment = []\<rparr> = ''wss://plex.local:32400/:/websockets/notifications''"
    by (simp add: plain_outside_def)
  have h3: "Dial plain_outside
      (URL_String plain_outside
         \<lparr>Scheme = ''wss'', Opaque = [], Host = Host ?u,
          Path = ''/:/websockets/notifications'', RawQuery = [], Fragment = []\<rparr>)
      [(''X-Plex-Token'', [Token ?p2])] = Some (OtherError ''bad handshake'')"
    by (simp add: plain_outside_def server_def)
  have e: "errCb counting err no_counts = no_counts\<lparr>errors := 1\<rparr>" for err
    by (simp add: counting_def no_counts_def)
  from h1
    Subscribe_setup_failure [of plain_outside ?p1 "OtherError ''missing protocol scheme''"
      counting no_counts "Tick ''t'' None" ?u]
  have c1: "SubscribeToNotifications plain_outside ?p1 counting no_counts =
        \<lparr>world = errCb counting (OtherError ''missing protocol scheme'') no_counts,
         trace = [CallErrCb Setup (OtherError ''missing protocol scheme'')],
         read_task = None, beat_task = None, done_closed = False\<rparr> \<and>
      step counting (Tick ''t'' None) (SubscribeToNotifications plain_outside ?p1 counting no_counts) = None"
    by blast
  from h2 h3
    Subscribe_setup_failure [of plain_outside ?p2 "OtherError ''bad handshake''"
      counting no_counts "Read (Inr (frame ''playing'' 1))" ?u]
  have c2: "filter is_callback (trace (SubscribeToNotifications plain_outside ?p2 counting no_counts)) =
        [CallErrCb Setup (OtherError ''bad handshake'')] \<and>
      world (SubscribeToNotifications plain_outside ?p2 counting no_counts) =
        errCb counting (OtherError ''bad handshake'') no_counts \<and>
      step counting (Read (Inr (frame ''playing'' 1)))
        (SubscribeToNotifications plain_outside ?p2 counting no_counts) = None"
    by blast
  have d: "Dial plain_outside ''wss://plex.local:32400/:/websockets/notifications''
     [(''X-Plex-Token'', [Token ?p2])] = Some (OtherError ''bad handshake'')"
    using h3 s by simp
  show ?thesis
    using h1 h2 d c1 c2 unfolding e by simp
qed

subsection \<open>The read goroutine\<close>

text \<open>
  Claim C6. When \<open>ReadJSON\<close> returns a close error with the normal-closure code, the
  read goroutine calls \<open>doneCb\<close>, does not call \<open>errCb\<close>, and returns: its two deferred
  calls run (\<open>close(done)\<close>, then \<open>c.Close()\<close>), and after them it neither reads nor
  runs anything again.
\<close>

theorem read_normal_closure:
  assumes "read_task s = Some ReadLoop" and "IsCloseError err [CloseNormalClosure]"
  shows "run a [Read (Inl err), Deferred, Deferred] s =
           Some (s\<lparr>world := doneCb a (world s),
                    trace := trace s @ [ReadJSON (Inl err), CallDoneCb ReadTask, CloseDone, ConnClose ReadTask],
                    read_task := Some ReadReturned,
                    done_closed := True\<rparr>) \<and>
         step a (Read r)
           (s\<lparr>world := doneCb a (world s),
               trace := trace s @ [ReadJSON (Inl err), CallDoneCb ReadTask, CloseDone, ConnClose ReadTask],
               read_task := Some ReadReturned,
               done_closed := True\<rparr>) = None \<and>
         step a Deferred
           (s\<lparr>world := doneCb a (world s),
               trace := trace s @ [ReadJSON (Inl err), CallDoneCb ReadTask, CloseDone, ConnClose ReadTask],
               read_task := Some ReadReturned,
               done_closed := True\<rparr>) = None"
  using assms by (simp add: read_iteration_def emit_def Let_def)

theorem read_normal_closure_witness:
  "read_task (SubscribeToNotifications plain_outside server counting no_counts) = Some ReadLoop \<and>
   IsCloseError (CloseError 1000 ''bye'') [CloseNormalClosure] \<and>
   run counting [Read (Inl (CloseError 1000 ''bye'')), Deferred, Deferred]
     (SubscribeToNotifications plain_outside server counting no_counts) =
   Some \<lparr>world = \<lparr>errors = 0, dones = 1, played = []\<rparr>,
         trace =
           [DialCall ''wss://plex.local:32400/:/websockets/notifications''
              [(''X-Plex-Token'', [''secret''])],
            ReadJSON (Inl (CloseError 1000 ''bye'')),
            CallDoneCb ReadTask,
            CloseDone,
            ConnClose ReadTask],
         read_task = Some ReadReturned, beat_task = Some BeatSelect, done_closed = True\<rparr>"
proof -
  let ?S = "SubscribeToNotifications plain_outside server counting no_counts"
  have h1: "read_task ?S = Some ReadLoop" by (simp add: session_started)
  have h2: "IsCloseError (CloseError 1000 ''bye'') [CloseNormalClosure]"
    by (simp add: IsCloseError_def CloseNormalClosure_def)
  from read_normal_closure [OF h1 h2, of counting]
  have "run counting [Read (Inl (CloseError 1000 ''bye'')), Deferred, Deferred] ?S =
           Some (?S\<lparr>world := doneCb counting (world ?S),
                    trace := trace ?S @ [ReadJSON (Inl (CloseError 1000 ''bye'')), CallDoneCb ReadTask, CloseDone, ConnClose ReadTask],
                    read_task := Some ReadReturned,
                    done_closed := True\<rparr>)"
    by blast
  then show ?thesis using h1 h2 unfolding session_started
    by (simp add: counting_callbacks no_counts_def)
qed

text \<open>
  Claim C7. For a decoded frame the read goroutine looks the frame's type up in the
  table. With an entry, it calls that callback with the frame's container. Without
  one, it only logs the name: no callback runs, \<open>errCb\<close> is not called and the caller's
  state is unchanged. Either way the goroutine stays in its loop, ready for the next
  frame.
\<close>

theorem read_dispatch:
  assumes "read_task s = Some ReadLoop"
  shows "step a (Read (Inr notif)) s =
           Some (case events (table a) (NotificationContainer.Type (NotificationContainer notif)) of
                   Some cb \<Rightarrow>
                     s\<lparr>world := cb (NotificationContainer notif) (world s),
                       trace := trace s @
                         [ReadJSON (Inr notif),
                          CallHandler (NotificationContainer.Type (NotificationContainer notif))
                            (NotificationContainer notif)]\<rparr>
                 | None \<Rightarrow>
                     s\<lparr>trace := trace s @
                         [ReadJSON (Inr notif),
                          LogUnknown (NotificationContainer.Type (NotificationContainer notif))]\<rparr>) \<and>
         map_option read_task (step a (Read (Inr notif)) s) = Some (Some ReadLoop)"
  using assms by (simp add: read_iteration_def emit_def Let_def split: option.splits)

theorem read_dispatch_witness:
  "read_task (SubscribeToNotifications plain_outside server counting no_counts) = Some ReadLoop \<and>
   step counting (Read (Inr (frame ''playing'' 1)))
     (SubscribeToNotifications plain_outside server counting no_counts) =
   Some \<lparr>world = \<lparr>errors = 0, dones = 0, played = [NotificationContainer (frame ''playing'' 1)]\<rparr>,
         trace =
           [DialCall ''wss://plex.local:32400/:/websockets/notifications''
              [(''X-Plex-Token'', [''secret''])],
            ReadJSON (Inr (frame ''playing'' 1)),
            CallHandler ''playing'' (NotificationContainer (frame ''playing'' 1))],
         read_task = Some ReadLoop, beat_task = Some BeatSelect, done_closed = False\<rparr> \<and>
   step counting (Read (Inr (frame ''bogus'' 2)))
     (SubscribeToNotifications plain_outside server counting no_counts) =
   Some \<lparr>world = \<lparr>errors = 0, dones = 0, played = []\<rparr>,
         trace =
           [DialCall ''wss://plex.local:32400/:/websockets/notifications''
              [(''X-Plex-Token'', [''secret''])],
            ReadJSON (Inr (frame ''bogus'' 2)),
            LogUnknown ''bogus''],
         read_task = Some ReadLoop, beat_task = Some BeatSelect, done_closed = False\<rparr>"
proof -
  let ?S = "SubscribeToNotifications plain_outside server counting no_counts"
  have h: "read_task ?S = Some ReadLoop" by (simp add: session_started)
  note a = read_dispatch [OF h, of counting "frame ''playing'' 1", THEN conjunct1]
  note b = read_dispatch [OF h, of counting "frame ''bogus'' 2", THEN conjunct1]
  show ?thesis
    using h a b unfolding session_started
    by (simp add: counting_callbacks frame_Type no_counts_def)
qed

lemma run_append:
  "run a (xs @ ys) s = (case run a xs s of None \<Rightarrow> None | Some s' \<Rightarrow> run a ys s')"
  by (induction xs arbitrary: s) (simp_all split: option.splits)

lemma step_read_loop_trace:
  assumes "step a i s = Some s'"
  shows "filter of_read_loop (trace s') =
           filter of_read_loop (trace s) @ concat (map (expected_calls a) (reads_of [i]))"
proof (cases i)
  case (Read r)
  then show ?thesis using assms
    by (cases r)
      (auto simp: read_iteration_def emit_def Let_def expected_calls_def
        split: if_splits option.splits)
qed (use assms in \<open>auto simp: emit_def Let_def split: if_splits option.splits\<close>)

lemma reads_of_Cons: "reads_of (i # is) = reads_of [i] @ reads_of is"
  by (cases i) simp_all

lemma run_read_loop_trace:
  "run a is s = Some s' \<Longrightarrow>
     filter of_read_loop (trace s') =
       filter of_read_loop (trace s) @ concat (map (expected_calls a) (reads_of is))"
proof (induction "is" arbitrary: s)
  case Nil
  then show ?case by simp
next
  case (Cons i "is")
  from Cons.prems obtain s1 where s1: "step a i s = Some s1" and r: "run a is s1 = Some s'"
    by (auto split: option.splits)
  show ?case
    using step_read_loop_trace [OF s1] Cons.IH [OF r]
    by (subst reads_of_Cons) simp
qed

lemma run_frames_world:
  "read_task s = Some ReadLoop \<Longrightarrow>
     map_option world (run a (map (\<lambda>f. Read (Inr f)) fs) s) = Some (foldl (deliver a) (world s) fs) \<and>
     map_option read_task (run a (map (\<lambda>f. Read (Inr f)) fs) s) = Some (Some ReadLoop)"
proof (induction fs arbitrary: s)
  case Nil
  then show ?case by simp
next
  case (Cons f fs)
  let ?s1 = "read_iteration a (Inr f) s"
  have 1: "read_task ?s1 = Some ReadLoop" and 2: "world ?s1 = deliver a (world s) f"
    using Cons.prems
    by (auto simp: read_iteration_def emit_def Let_def deliver_def split: option.splits)
  show ?case using Cons.IH [OF 1] Cons.prems by (simp add: 2)
qed

text \<open>
  Claim C8. Frames are handled in the order read, one at a time. When the frames
  \<open>fs\<close> are read one after the other, the caller's state is what the callbacks leave when
  applied in that order, each to the state the previous one left, and the goroutine is
  still in its loop. In any run of the session, whatever the heartbeat does in between,
  the reads and callback calls of the read goroutine are, frame by frame in reading
  order, the read of the frame followed by the call of its callback (if it has one):
  the callback for a frame is called before the next frame is read.
\<close>

theorem frames_in_order:
  "(read_task s = Some ReadLoop \<longrightarrow>
      map_option world (run a (map (\<lambda>f. Read (Inr f)) fs) s) = Some (foldl (deliver a) (world s) fs) \<and>
      map_option read_task (run a (map (\<lambda>f. Read (Inr f)) fs) s) = Some (Some ReadLoop)) \<and>
   (run a is s = Some s' \<longrightarrow>
      filter of_read_loop (trace s') =
        filter of_read_loop (trace s) @ concat (map (expected_calls a) (reads_of is)))"
  using run_frames_world [of s a fs] run_read_loop_trace [of a "is" s s'] by blast

theorem frames_in_order_witness:
  "read_task (SubscribeToNotifications plain_outside server counting no_counts) = Some ReadLoop \<and>
   map_option world
     (run counting
        (map (\<lambda>f. Read (Inr f)) [frame ''playing'' 1, frame ''bogus'' 2, frame ''playing'' 3])
        (SubscribeToNotifications plain_outside server counting no_counts)) =
     Some \<lparr>errors = 0, dones = 0,
           played = [NotificationContainer (frame ''playing'' 1),
                     NotificationContainer (frame ''playing'' 3)]\<rparr> \<and>
   run counting
     [Read (Inr (frame ''playing'' 1)), Tick ''t1'' None, Read (Inr (frame ''timeline'' 2)),
      Interrupt None, Read (Inr (frame ''playing'' 3))]
     (SubscribeToNotifications plain_outside server counting no_counts) =
     Some \<lparr>world = \<lparr>errors = 0, dones = 0,
                    played = [NotificationContainer (frame ''playing'' 1),
                              NotificationContainer (frame ''playing'' 3)]\<rparr>,
           trace =
             [DialCall ''wss://plex.local:32400/:/websockets/notifications''
                [(''X-Plex-Token'', [''secret''])],
              ReadJSON (Inr (frame ''playing'' 1)),
              CallHandler ''playing'' (NotificationContainer (frame ''playing'' 1)),
              WriteMessage HeartbeatTask TextMessage ''t1'',
              ReadJSON (Inr (frame ''timeline'' 2)),
              CallHandler ''timeline'' (NotificationContainer (frame ''timeline'' 2)),
              WriteMessage HeartbeatTask CloseMessage (FormatCloseMessage CloseNormalClosure []),
              ReadJSON (Inr (frame ''playing'' 3)),
              CallHandler ''playing'' (NotificationContainer (frame ''playing'' 3))],
           read_task = Some ReadLoop, beat_task = Some BeatWait, done_closed = False\<rparr> \<and>
   filter of_read_loop
     [DialCall ''wss://plex.local:32400/:/websockets/notifications''
        [(''X-Plex-Token'', [''secret''])],
      ReadJSON (Inr (frame ''playing'' 1)),
      CallHandler ''playing'' (NotificationContainer (frame ''playing'' 1)),
      WriteMessage HeartbeatTask TextMessage ''t1'',
      ReadJSON (Inr (frame ''timeline'' 2)),
      CallHandler ''timeline'' (NotificationContainer (frame ''timeline'' 2)),
      WriteMessage HeartbeatTask CloseMessage (FormatCloseMessage CloseNormalClosure []),
      ReadJSON (Inr (frame ''playing'' 3)),
      CallHandler ''playing'' (NotificationContainer (frame ''playing'' 3))] =
     concat (map (expected_calls counting)
       [Inr (frame ''playing'' 1), Inr (frame ''timeline'' 2), Inr (frame ''playing'' 3)])"
proof -
  let ?S = "SubscribeToNotifications plain_outside server counting no_counts"
  let ?fs = "[frame ''playing'' 1, frame ''bogus'' 2, frame ''playing'' 3]"
  let ?is = "[Read (Inr (frame ''playing'' 1)), Tick ''t1'' None, Read (Inr (frame ''timeline'' 2)),
      Interrupt None, Read (Inr (frame ''playing'' 3))]"
  let ?tr = "[DialCall ''wss://plex.local:32400/:/websockets/notifications''
                [(''X-Plex-Token'', [''secret''])],
              ReadJSON (Inr (frame ''playing'' 1)),
              CallHandler ''playing'' (NotificationContainer (frame ''playing'' 1)),
              WriteMessage HeartbeatTask TextMessage ''t1'',
              ReadJSON (Inr (frame ''timeline'' 2)),
              CallHandler ''timeline'' (NotificationContainer (frame ''timeline'' 2)),
              WriteMessage HeartbeatTask CloseMessage (FormatCloseMessage CloseNormalClosure []),
              ReadJSON (Inr (frame ''playing'' 3)),
              CallHandler ''playing'' (NotificationContainer (frame ''playing'' 3))]"
  let ?s' = "\<lparr>world = \<lparr>errors = 0, dones = 0,
                    played = [NotificationContainer (frame ''playing'' 1),
                              NotificationContainer (frame ''playing'' 3)]\<rparr>,
           trace = ?tr,
           read_task = Some ReadLoop, beat_task = Some BeatWait, done_closed = False\<rparr>"
  have h: "read_task ?S = Some ReadLoop" by (simp add: session_started)
  have tl: "events (table counting) ''timeline'' = Some noop"
    by (simp add: counting_def OnPlaying_def NewNotificationEvents_lookup recognized_kinds_def)
  have r: "run counting ?is ?S = Some ?s'"
    unfolding session_started
    by (simp add: read_iteration_def emit_def Let_def counting_callbacks tl frame_Type noop_def
        no_counts_def)
  have d: "foldl (deliver counting) (world ?S) ?fs =
      \<lparr>errors = 0, dones = 0,
           played = [NotificationContainer (frame ''playing'' 1),
                     NotificationContainer (frame ''playing'' 3)]\<rparr>"
    unfolding session_started
    by (simp add: deliver_def counting_callbacks frame_Type no_counts_def)
  from frames_in_order [of ?S counting ?fs ?is ?s'] h r
  have "map_option world (run counting (map (\<lambda>f. Read (Inr f)) ?fs) ?S) =
          Some (foldl (deliver counting) (world ?S) ?fs) \<and>
        filter of_read_loop (trace ?s') =
          filter of_read_loop (trace ?S) @ concat (map (expected_calls counting) (reads_of ?is))"
    by blast
  then show ?thesis using h r d by (simp add: session_started)
qed

subsection \<open>The callbacks and the closes of a whole session\<close>

lemma step_read_callbacks:
  assumes "step a i s = Some s'"
    and "length (filter (callback_by ReadTask) (trace s)) = (if left_loop s then 1 else 0)"
  shows "length (filter (callback_by ReadTask) (trace s')) = (if left_loop s' then 1 else 0)"
proof (cases i)
  case (Read r)
  then show ?thesis using assms
    by (cases r)
      (auto simp: read_iteration_def emit_def Let_def left_loop_def split: if_splits option.splits)
qed (use assms in \<open>auto simp: emit_def Let_def left_loop_def split: if_splits option.splits\<close>)

lemma run_read_callbacks:
  "run a is s = Some s' \<Longrightarrow>
   length (filter (callback_by ReadTask) (trace s)) = (if left_loop s then 1 else 0) \<Longrightarrow>
   length (filter (callback_by ReadTask) (trace s')) = (if left_loop s' then 1 else 0)"
proof (induction "is" arbitrary: s)
  case Nil
  then show ?case by simp
next
  case (Cons i "is")
  from Cons.prems(1) obtain s1 where s1: "step a i s = Some s1" and r: "run a is s1 = Some s'"
    by (auto split: option.splits)
  show ?case
    by (rule Cons.IH [OF r step_read_callbacks [OF s1 Cons.prems(2)]])
qed

lemma step_beat_callbacks:
  assumes "step a i s = Some s'"
  shows "length (filter (callback_by HeartbeatTask) (trace s')) =
           length (filter (callback_by HeartbeatTask) (trace s)) + length (filter failed_tick [i])"
proof (cases i)
  case (Read r)
  then show ?thesis using assms
    by (cases r)
      (auto simp: read_iteration_def emit_def Let_def split: if_splits option.splits)
qed (use assms in \<open>auto simp: emit_def Let_def split: if_splits option.splits\<close>)

lemma run_beat_callbacks:
  "run a is s = Some s' \<Longrightarrow>
   length (filter (callback_by HeartbeatTask) (trace s')) =
     length (filter (callback_by HeartbeatTask) (trace s)) + length (filter failed_tick is)"
proof (induction "is" arbitrary: s)
  case Nil
  then show ?case by simp
next
  case (Cons i "is")
  from Cons.prems obtain s1 where s1: "step a i s = Some s1" and r: "run a is s1 = Some s'"
    by (auto split: option.splits)
  show ?case
    using step_beat_callbacks [OF s1] Cons.IH [OF r] by simp
qed

lemma step_setup_callbacks:
  assumes "step a i s = Some s'"
  shows "filter (callback_by Setup) (trace s') = filter (callback_by Setup) (trace s)"
proof (cases i)
  case (Read r)
  then show ?thesis using assms
    by (cases r)
      (auto simp: read_iteration_def emit_def Let_def split: if_splits option.splits)
qed (use assms in \<open>auto simp: emit_def Let_def split: if_splits option.splits\<close>)

lemma run_setup_callbacks:
  "run a is s = Some s' \<Longrightarrow>
   filter (callback_by Setup) (trace s') = filter (callback_by Setup) (trace s)"
proof (induction "is" arbitrary: s)
  case Nil
  then show ?case by simp
next
  case (Cons i "is")
  from Cons.prems obtain s1 where s1: "step a i s = Some s1" and r: "run a is s1 = Some s'"
    by (auto split: option.splits)
  show ?case
    using step_setup_callbacks [OF s1] Cons.IH [OF r] by simp
qed

lemma step_done_callbacks:
  assumes "step a i s = Some s'"
    and "length (filter is_CallDoneCb (trace s)) \<le> (if left_loop s then 1 else 0)"
  shows "length (filter is_CallDoneCb (trace s')) \<le> (if left_loop s' then 1 else 0)"
proof (cases i)
  case (Read r)
  then show ?thesis using assms
    by (cases r)
      (auto simp: read_iteration_def emit_def Let_def left_loop_def split: if_splits option.splits)
qed (use assms in \<open>auto simp: emit_def Let_def left_loop_def split: if_splits option.splits\<close>)

lemma run_done_callbacks:
  "run a is s = Some s' \<Longrightarrow>
   length (filter is_CallDoneCb (trace s)) \<le> (if left_loop s then 1 else 0) \<Longrightarrow>
   length (filter is_CallDoneCb (trace s')) \<le> (if left_loop s' then 1 else 0)"
proof (induction "is" arbitrary: s)
  case Nil
  then show ?case by simp
next
  case (Cons i "is")
  from Cons.prems(1) obtain s1 where s1: "step a i s = Some s1" and r: "run a is s1 = Some s'"
    by (auto split: option.splits)
  show ?case
    by (rule Cons.IH [OF r step_done_callbacks [OF s1 Cons.prems(2)]])
qed

lemma Subscribe_initial:
  "filter (callback_by ReadTask) (trace (SubscribeToNotifications out p a w)) = [] \<and>
   filter (callback_by HeartbeatTask) (trace (SubscribeToNotifications out p a w)) = [] \<and>
   filter is_CallDoneCb (trace (SubscribeToNotifications out p a w)) = [] \<and>
   filter is_ConnClose (trace (SubscribeToNotifications out p a w)) = [] \<and>
   \<not> left_loop (SubscribeToNotifications out p a w) \<and>
   length (filter (callback_by Setup) (trace (SubscribeToNotifications out p a w))) =
     (if read_task (SubscribeToNotifications out p a w) = None then 1 else 0) \<and>
   (read_task (SubscribeToNotifications out p a w) = None \<longleftrightarrow>
      beat_task (SubscribeToNotifications out p a w) = None)"
  by (auto simp: SubscribeToNotifications_def Let_def left_loop_def split: sum.splits option.splits)

lemma step_keeps_started:
  "step a i s = Some s' \<Longrightarrow> (read_task s' = None) = (read_task s = None)"
  by (cases i) (auto simp: read_iteration_def emit_def Let_def split: if_splits option.splits sum.splits)

lemma run_keeps_started:
  "run a is s = Some s' \<Longrightarrow> (read_task s' = None) = (read_task s = None)"
proof (induction "is" arbitrary: s)
  case Nil
  then show ?case by simp
next
  case (Cons i "is")
  from Cons.prems obtain s1 where s1: "step a i s = Some s1" and r: "run a is s1 = Some s'"
    by (auto split: option.splits)
  show ?case
    using step_keeps_started [OF s1] Cons.IH [OF r] by simp
qed

lemma callbacks_split:
  "length (filter is_callback tr) =
     length (filter (callback_by Setup) tr) + length (filter (callback_by ReadTask) tr) +
     length (filter (callback_by HeartbeatTask) tr)"
proof (induction tr)
  case Nil
  then show ?case by simp
next
  case (Cons ev tr)
  show ?case
  proof (cases ev)
    case (CallErrCb t err)
    then show ?thesis using Cons by (cases t) simp_all
  next
    case (CallDoneCb t)
    then show ?thesis using Cons by (cases t) simp_all
  qed (use Cons in simp_all)
qed

text \<open>
  Claim C1, as amended. In every run of a session: \<open>errCb\<close> is called once by the setup
  exactly when no goroutine was started; the read goroutine has called exactly one of
  \<open>errCb\<close> and \<open>doneCb\<close>, once, when it has left its loop, and none before; \<open>doneCb\<close> is
  called at most once in all; and the heartbeat has called \<open>errCb\<close> once for every tick
  whose write failed. The callbacks called are these and no others.
\<close>

theorem callbacks_of_a_session:
  assumes "run a is (SubscribeToNotifications out p a w) = Some s"
  shows "length (filter (callback_by Setup) (trace s)) = (if read_task s = None then 1 else 0) \<and>
         length (filter (callback_by ReadTask) (trace s)) = (if left_loop s then 1 else 0) \<and>
         length (filter (callback_by HeartbeatTask) (trace s)) = length (filter failed_tick is) \<and>
         length (filter is_CallDoneCb (trace s)) \<le> (if left_loop s then 1 else 0) \<and>
         length (filter is_callback (trace s)) =
           (if read_task s = None then 1 else 0) + (if left_loop s then 1 else 0) +
           length (filter failed_tick is)"
proof -
  let ?S = "SubscribeToNotifications out p a w"
  note init = Subscribe_initial [of out p a w]
  have 1: "length (filter (callback_by Setup) (trace s)) = (if read_task s = None then 1 else 0)"
    using run_setup_callbacks [OF assms] run_keeps_started [OF assms] init by simp
  have 2: "length (filter (callback_by ReadTask) (trace s)) = (if left_loop s then 1 else 0)"
    using init by (intro run_read_callbacks [OF assms]) simp
  have 3: "length (filter (callback_by HeartbeatTask) (trace s)) = length (filter failed_tick is)"
    using run_beat_callbacks [OF assms] init by simp
  have 4: "length (filter is_CallDoneCb (trace s)) \<le> (if left_loop s then 1 else 0)"
    using init by (intro run_done_callbacks [OF assms]) simp
  show ?thesis
    using 1 2 3 4 by (simp add: callbacks_split)
qed

theorem callbacks_of_a_session_witness:
  "run counting
     [Tick ''t1'' (Some (OtherError ''broken pipe'')), Read (Inr (frame ''playing'' 1)),
      Read (Inl (OtherError ''unexpected EOF'')), Tick ''t2'' (Some (OtherError ''broken pipe''))]
     (SubscribeToNotifications plain_outside server counting no_counts) =
   Some \<lparr>world = \<lparr>errors = 3, dones = 0, played = [NotificationContainer (frame ''playing'' 1)]\<rparr>,
         trace =
           [DialCall ''wss://plex.local:32400/:/websockets/notifications''
              [(''X-Plex-Token'', [''secret''])],
            WriteMessage HeartbeatTask TextMessage ''t1'',
            CallErrCb HeartbeatTask (OtherError ''broken pipe''),
            ReadJSON (Inr (frame ''playing'' 1)),
            CallHandler ''playing'' (NotificationContainer (frame ''playing'' 1)),
            ReadJSON (Inl (OtherError ''unexpected EOF'')),
            CallErrCb ReadTask (OtherError ''unexpected EOF''),
            WriteMessage HeartbeatTask TextMessage ''t2'',
            CallErrCb HeartbeatTask (OtherError ''broken pipe'')],
         read_task = Some ReadCloseDone, beat_task = Some BeatSelect, done_closed = False\<rparr> \<and>
   length (filter (callback_by ReadTask)
     [DialCall ''wss://plex.local:32400/:/websockets/notifications''
        [(''X-Plex-Token'', [''secret''])],
      WriteMessage HeartbeatTask TextMessage ''t1'',
      CallErrCb HeartbeatTask (OtherError ''broken pipe''),
      ReadJSON (Inr (frame ''playing'' 1)),
      CallHandler ''playing'' (NotificationContainer (frame ''playing'' 1)),
      ReadJSON (Inl (OtherError ''unexpected EOF'')),
      CallErrCb ReadTask (OtherError ''unexpected EOF''),
      WriteMessage HeartbeatTask TextMessage ''t2'',
      CallErrCb HeartbeatTask (OtherError ''broken pipe'')]) = 1 \<and>
   length (filter (callback_by HeartbeatTask)
     [DialCall ''wss://plex.local:32400/:/websockets/notifications''
        [(''X-Plex-Token'', [''secret''])],
      WriteMessage HeartbeatTask TextMessage ''t1'',
      CallErrCb HeartbeatTask (OtherError ''broken pipe''),
      ReadJSON (Inr (frame ''playing'' 1)),
      CallHandler ''playing'' (NotificationContainer (frame ''playing'' 1)),
      ReadJSON (Inl (OtherError ''unexpected EOF'')),
      CallErrCb ReadTask (OtherError ''unexpected EOF''),
      WriteMessage HeartbeatTask TextMessage ''t2'',
      CallErrCb HeartbeatTask (OtherError ''broken pipe'')]) = 2"
proof -
  let ?is = "[Tick ''t1'' (Some (OtherError ''broken pipe'')), Read (Inr (frame ''playing'' 1)),
      Read (Inl (OtherError ''unexpected EOF'')), Tick ''t2'' (Some (OtherError ''broken pipe''))]"
  let ?tr = "[DialCall ''wss://plex.local:32400/:/websockets/notifications''
              [(''X-Plex-Token'', [''secret''])],
            WriteMessage HeartbeatTask TextMessage ''t1'',
            CallErrCb HeartbeatTask (OtherError ''broken pipe''),
            ReadJSON (Inr (frame ''playing'' 1)),
            CallHandler ''playing'' (NotificationContainer (frame ''playing'' 1)),
            ReadJSON (Inl (OtherError ''unexpected EOF'')),
            CallErrCb ReadTask (OtherError ''unexpected EOF''),
            WriteMessage HeartbeatTask TextMessage ''t2'',
            CallErrCb HeartbeatTask (OtherError ''broken pipe'')]"
  let ?s = "\<lparr>world = \<lparr>errors = 3, dones = 0, played = [NotificationContainer (frame ''playing'' 1)]\<rparr>,
         trace = ?tr,
         read_task = Some ReadCloseDone, beat_task = Some BeatSelect, done_closed = False\<rparr>"
  have r: "run counting ?is (SubscribeToNotifications plain_outside server counting no_counts) = Some ?s"
    unfolding session_started
    by (simp add: read_iteration_def emit_def Let_def counting_callbacks frame_Type
        IsCloseError_def CloseNormalClosure_def no_counts_def)
  have l: "left_loop ?s" by (simp add: left_loop_def)
  from callbacks_of_a_session [OF r]
  have "length (filter (callback_by ReadTask) (trace ?s)) = (if left_loop ?s then 1 else 0) \<and>
        length (filter (callback_by HeartbeatTask) (trace ?s)) = length (filter failed_tick ?is)"
    by blast
  then show ?thesis using r l by simp
qed

text \<open>
  Claim C1 as stated fails: there is no guard that lets only one callback through. In
  this run two heartbeat writes fail, then the read reports a normal closure: \<open>errCb\<close> is
  called twice and \<open>doneCb\<close> once.
\<close>

theorem callbacks_exactly_once_counterexample:
  "run counting
     [Tick ''t1'' (Some (OtherError ''broken pipe'')),
      Tick ''t2'' (Some (OtherError ''broken pipe'')),
      Read (Inl (CloseError 1000 []))]
     (SubscribeToNotifications plain_outside server counting no_counts) =
   Some \<lparr>world = \<lparr>errors = 2, dones = 1, played = []\<rparr>,
         trace =
           [DialCall ''wss://plex.local:32400/:/websockets/notifications''
              [(''X-Plex-Token'', [''secret''])],
            WriteMessage HeartbeatTask TextMessage ''t1'',
            CallErrCb HeartbeatTask (OtherError ''broken pipe''),
            WriteMessage HeartbeatTask TextMessage ''t2'',
            CallErrCb HeartbeatTask (OtherError ''broken pipe''),
            ReadJSON (Inl (CloseError 1000 [])),
            CallDoneCb ReadTask],
         read_task = Some ReadCloseDone, beat_task = Some BeatSelect, done_closed = False\<rparr> \<and>
   filter is_callback
     [DialCall ''wss://plex.local:32400/:/websockets/notifications''
        [(''X-Plex-Token'', [''secret''])],
      WriteMessage HeartbeatTask TextMessage ''t1'',
      CallErrCb HeartbeatTask (OtherError ''broken pipe''),
      WriteMessage HeartbeatTask TextMessage ''t2'',
      CallErrCb HeartbeatTask (OtherError ''broken pipe''),
      ReadJSON (Inl (CloseError 1000 [])),
      CallDoneCb ReadTask] =
     [CallErrCb HeartbeatTask (OtherError ''broken pipe''),
      CallErrCb HeartbeatTask (OtherError ''broken pipe''),
      CallDoneCb ReadTask]"
  unfolding session_started
  by (simp add: read_iteration_def emit_def Let_def counting_callbacks
      IsCloseError_def CloseNormalClosure_def no_counts_def)

lemma step_read_closes:
  assumes "step a i s = Some s'"
    and "length (filter (close_by ReadTask) (trace s)) = (if read_task s = Some ReadReturned then 1 else 0)"
  shows "length (filter (close_by ReadTask) (trace s')) = (if read_task s' = Some ReadReturned then 1 else 0)"
proof (cases i)
  case (Read r)
  then show ?thesis using assms
    by (cases r)
      (auto simp: read_iteration_def emit_def Let_def split: if_splits option.splits)
qed (use assms in \<open>auto simp: emit_def Let_def split: if_splits option.splits\<close>)

lemma run_read_closes:
  "run a is s = Some s' \<Longrightarrow>
   length (filter (close_by ReadTask) (trace s)) = (if read_task s = Some ReadReturned then 1 else 0) \<Longrightarrow>
   length (filter (close_by ReadTask) (trace s')) = (if read_task s' = Some ReadReturned then 1 else 0)"
proof (induction "is" arbitrary: s)
  case Nil
  then show ?case by simp
next
  case (Cons i "is")
  from Cons.prems(1) obtain s1 where s1: "step a i s = Some s1" and r: "run a is s1 = Some s'"
    by (auto split: option.splits)
  show ?case
    by (rule Cons.IH [OF r step_read_closes [OF s1 Cons.prems(2)]])
qed

lemma step_beat_closes:
  assumes "step a i s = Some s'"
  shows "length (filter (close_by HeartbeatTask) (trace s')) =
           length (filter (close_by HeartbeatTask) (trace s)) + length (filter is_Timeout [i])"
proof (cases i)
  case (Read r)
  then show ?thesis using assms
    by (cases r)
      (auto simp: read_iteration_def emit_def Let_def split: if_splits option.splits)
qed (use assms in \<open>auto simp: emit_def Let_def split: if_splits option.splits\<close>)

lemma run_beat_closes:
  "run a is s = Some s' \<Longrightarrow>
   length (filter (close_by HeartbeatTask) (trace s')) =
     length (filter (close_by HeartbeatTask) (trace s)) + length (filter is_Timeout is)"
proof (induction "is" arbitrary: s)
  case Nil
  then show ?case by simp
next
  case (Cons i "is")
  from Cons.prems obtain s1 where s1: "step a i s = Some s1" and r: "run a is s1 = Some s'"
    by (auto split: option.splits)
  show ?case
    using step_beat_closes [OF s1] Cons.IH [OF r] by simp
qed

lemma step_beat_closes_bound:
  assumes "step a i s = Some s'"
    and "length (filter (close_by HeartbeatTask) (trace s)) \<le> (if beat_task s = Some BeatReturned then 1 else 0)"
  shows "length (filter (close_by HeartbeatTask) (trace s')) \<le> (if beat_task s' = Some BeatReturned then 1 else 0)"
proof (cases i)
  case (Read r)
  then show ?thesis using assms
    by (cases r)
      (auto simp: read_iteration_def emit_def Let_def split: if_splits option.splits)
qed (use assms in \<open>auto simp: emit_def Let_def split: if_splits option.splits\<close>)

lemma run_beat_closes_bound:
  "run a is s = Some s' \<Longrightarrow>
   length (filter (close_by HeartbeatTask) (trace s)) \<le> (if beat_task s = Some BeatReturned then 1 else 0) \<Longrightarrow>
   length (filter (close_by HeartbeatTask) (trace s')) \<le> (if beat_task s' = Some BeatReturned then 1 else 0)"
proof (induction "is" arbitrary: s)
  case Nil
  then show ?case by simp
next
  case (Cons i "is")
  from Cons.prems(1) obtain s1 where s1: "step a i s = Some s1" and r: "run a is s1 = Some s'"
    by (auto split: option.splits)
  show ?case
    by (rule Cons.IH [OF r step_beat_closes_bound [OF s1 Cons.prems(2)]])
qed

lemma step_setup_closes:
  assumes "step a i s = Some s'"
  shows "filter (close_by Setup) (trace s') = filter (close_by Setup) (trace s)"
proof (cases i)
  case (Read r)
  then show ?thesis using assms
    by (cases r)
      (auto simp: read_iteration_def emit_def Let_def split: if_splits option.splits)
qed (use assms in \<open>auto simp: emit_def Let_def split: if_splits option.splits\<close>)

lemma run_setup_closes:
  "run a is s = Some s' \<Longrightarrow>
   filter (close_by Setup) (trace s') = filter (close_by Setup) (trace s)"
proof (induction "is" arbitrary: s)
  case Nil
  then show ?case by simp
next
  case (Cons i "is")
  from Cons.prems obtain s1 where s1: "step a i s = Some s1" and r: "run a is s1 = Some s'"
    by (auto split: option.splits)
  show ?case
    using step_setup_closes [OF s1] Cons.IH [OF r] by simp
qed

lemma closes_split:
  "length (filter is_ConnClose tr) =
     length (filter (close_by Setup) tr) + length (filter (close_by ReadTask) tr) +
     length (filter (close_by HeartbeatTask) tr)"
proof (induction tr)
  case Nil
  then show ?case by simp
next
  case (Cons ev tr)
  show ?case
  proof (cases ev)
    case (ConnClose t)
    then show ?thesis using Cons by (cases t) simp_all
  qed (use Cons in simp_all)
qed

lemma Subscribe_no_closes:
  "filter (close_by t) (trace (SubscribeToNotifications out p a w)) = [] \<and>
   read_task (SubscribeToNotifications out p a w) \<noteq> Some ReadReturned \<and>
   beat_task (SubscribeToNotifications out p a w) \<noteq> Some BeatReturned"
  by (auto simp: SubscribeToNotifications_def Let_def split: sum.splits option.splits)

text \<open>
  Claim C2, as amended. In every run of a session the read goroutine has closed the
  connection once when it has returned and not before (its deferred \<open>c.Close()\<close> is the
  last thing it does, on every way out of its loop); the heartbeat closes the connection
  only on the timeout of its wait, at most once, and has then returned. So the
  connection is closed at most twice, at most once by each goroutine.
\<close>

theorem closes_of_a_session:
  assumes "run a is (SubscribeToNotifications out p a w) = Some s"
  shows "length (filter (close_by ReadTask) (trace s)) = (if read_task s = Some ReadReturned then 1 else 0) \<and>
         length (filter (close_by HeartbeatTask) (trace s)) = length (filter is_Timeout is) \<and>
         length (filter is_Timeout is) \<le> (if beat_task s = Some BeatReturned then 1 else 0) \<and>
         length (filter is_ConnClose (trace s)) =
           (if read_task s = Some ReadReturned then 1 else 0) + length (filter is_Timeout is)"
proof -
  note init = Subscribe_no_closes [of _ out p a w]
  have 1: "length (filter (close_by ReadTask) (trace s)) = (if read_task s = Some ReadReturned then 1 else 0)"
    using init by (intro run_read_closes [OF assms]) simp
  have 2: "length (filter (close_by HeartbeatTask) (trace s)) = length (filter is_Timeout is)"
    using run_beat_closes [OF assms] init by simp
  have 3: "length (filter (close_by HeartbeatTask) (trace s)) \<le> (if beat_task s = Some BeatReturned then 1 else 0)"
    using init by (intro run_beat_closes_bound [OF assms]) simp
  have 4: "filter (close_by Setup) (trace s) = []"
    using run_setup_closes [OF assms] init by simp
  show ?thesis
    using 1 2 3 4 by (simp add: closes_split)
qed

theorem closes_of_a_session_witness:
  "run counting
     [Interrupt None, Read (Inl (CloseError 1000 [])), Deferred, Deferred, Done]
     (SubscribeToNotifications plain_outside server counting no_counts) =
   Some \<lparr>world = \<lparr>errors = 0, dones = 1, played = []\<rparr>,
         trace =
           [DialCall ''wss://plex.local:32400/:/websockets/notifications''
              [(''X-Plex-Token'', [''secret''])],
            WriteMessage HeartbeatTask CloseMessage (FormatCloseMessage CloseNormalClosure []),
            ReadJSON (Inl (CloseError 1000 [])),
            CallDoneCb ReadTask,
            CloseDone,
            ConnClose ReadTask,
            TickerStop],
         read_task = Some ReadReturned, beat_task = Some BeatReturned, done_closed = True\<rparr> \<and>
   length (filter is_ConnClose
     [DialCall ''wss://plex.local:32400/:/websockets/notifications''
        [(''X-Plex-Token'', [''secret''])],
      WriteMessage HeartbeatTask CloseMessage (FormatCloseMessage CloseNormalClosure []),
      ReadJSON (Inl (CloseError 1000 [])),
      CallDoneCb ReadTask,
      CloseDone,
      ConnClose ReadTask,
      TickerStop]) = 1"
proof -
  let ?is = "[Interrupt None, Read (Inl (CloseError 1000 [])), Deferred, Deferred, Done]"
  let ?tr = "[DialCall ''wss://plex.local:32400/:/websockets/notifications''
              [(''X-Plex-Token'', [''secret''])],
            WriteMessage HeartbeatTask CloseMessage (FormatCloseMessage CloseNormalClosure []),
            ReadJSON (Inl (CloseError 1000 [])),
            CallDoneCb ReadTask,
            CloseDone,
            ConnClose ReadTask,
            TickerStop]"
  let ?s = "\<lparr>world = \<lparr>errors = 0, dones = 1, played = []\<rparr>,
         trace = ?tr,
         read_task = Some ReadReturned, beat_task = Some BeatReturned, done_closed = True\<rparr>"
  have r: "run counting ?is (SubscribeToNotifications plain_outside server counting no_counts) = Some ?s"
    unfolding session_started
    by (simp add: read_iteration_def emit_def Let_def counting_callbacks
        IsCloseError_def CloseNormalClosure_def no_counts_def)
  from closes_of_a_session [OF r]
  have "length (filter is_ConnClose (trace ?s)) =
           (if read_task ?s = Some ReadReturned then 1 else 0) + length (filter is_Timeout ?is)"
    by blast
  then show ?thesis using r by simp
qed

text \<open>
  Claim C2 as stated fails: the read goroutine closes the connection too. In this run
  the heartbeat is interrupted and times out, closing the connection; the pending read
  then fails and the read goroutine's deferred \<open>c.Close()\<close> closes it again.
\<close>

theorem close_by_one_task_counterexample:
  "run counting
     [Interrupt None, Timeout, Read (Inl (OtherError ''use of closed network connection'')),
      Deferred, Deferred]
     (SubscribeToNotifications plain_outside server counting no_counts) =
   Some \<lparr>world = \<lparr>errors = 1, dones = 0, played = []\<rparr>,
         trace =
           [DialCall ''wss://plex.local:32400/:/websockets/notifications''
              [(''X-Plex-Token'', [''secret''])],
            WriteMessage HeartbeatTask CloseMessage (FormatCloseMessage CloseNormalClosure []),
            ConnClose HeartbeatTask,
            TickerStop,
            ReadJSON (Inl (OtherError ''use of closed network connection'')),
            CallErrCb ReadTask (OtherError ''use of closed network connection''),
            CloseDone,
            ConnClose ReadTask],
         read_task = Some ReadReturned, beat_task = Some BeatReturned, done_closed = True\<rparr> \<and>
   filter is_ConnClose
     [DialCall ''wss://plex.local:32400/:/websockets/notifications''
        [(''X-Plex-Token'', [''secret''])],
      WriteMessage HeartbeatTask CloseMessage (FormatCloseMessage CloseNormalClosure []),
      ConnClose HeartbeatTask,
      TickerStop,
      ReadJSON (Inl (OtherError ''use of closed network connection'')),
      CallErrCb ReadTask (OtherError ''use of closed network connection''),
      CloseDone,
      ConnClose ReadTask] =
     [ConnClose HeartbeatTask, ConnClose ReadTask]"
  unfolding session_started
  by (simp add: read_iteration_def emit_def Let_def counting_callbacks
      IsCloseError_def CloseNormalClosure_def no_counts_def)

subsection \<open>The heartbeat after the interrupt\<close>

lemma FormatCloseMessage_normal:
  "FormatCloseMessage CloseNormalClosure [] = [char_of (3 :: int), char_of (232 :: int)]"
  by (simp add: FormatCloseMessage_def CloseNormalClosure_def CloseNoStatusReceived_def)

text \<open>
  The steps of the shutdown, without their timing. On the interrupt the heartbeat
  writes one close frame with the normal-closure code, whatever the write returns, and
  waits. Waiting, it takes no tick and no second interrupt; it returns on \<open>done\<close> only
  once that channel is closed, without closing the connection, and on the timeout after
  closing the connection. Having returned, it does nothing more.
\<close>

theorem shutdown_handshake:
  "(beat_task s = Some BeatSelect \<longrightarrow>
      step a (Interrupt werr) s =
        Some (s\<lparr>trace := trace s @
                   [WriteMessage HeartbeatTask CloseMessage (FormatCloseMessage CloseNormalClosure [])],
                 beat_task := Some BeatWait\<rparr>)) \<and>
   (beat_task s = Some BeatWait \<longrightarrow>
      step a (Tick t werr) s = None \<and>
      step a (Interrupt werr) s = None \<and>
      step a Done s =
        (if done_closed s
         then Some (s\<lparr>trace := trace s @ [TickerStop], beat_task := Some BeatReturned\<rparr>)
         else None) \<and>
      step a Timeout s =
        Some (s\<lparr>trace := trace s @ [ConnClose HeartbeatTask, TickerStop],
                 beat_task := Some BeatReturned\<rparr>)) \<and>
   (beat_task s = Some BeatReturned \<longrightarrow>
      step a (Tick t werr) s = None \<and> step a (Interrupt werr) s = None \<and>
      step a Done s = None \<and> step a Timeout s = None)"
  by (simp add: emit_def)

theorem shutdown_handshake_witness:
  "beat_task (SubscribeToNotifications plain_outside server counting no_counts) = Some BeatSelect \<and>
   step counting (Interrupt None) (SubscribeToNotifications plain_outside server counting no_counts) =
     Some \<lparr>world = no_counts,
           trace =
             [DialCall ''wss://plex.local:32400/:/websockets/notifications''
                [(''X-Plex-Token'', [''secret''])],
              WriteMessage HeartbeatTask CloseMessage (FormatCloseMessage CloseNormalClosure [])],
           read_task = Some ReadLoop, beat_task = Some BeatWait, done_closed = False\<rparr> \<and>
   beat_task
     \<lparr>world = no_counts, trace = [], read_task = Some ReadLoop, beat_task = Some BeatWait,
      done_closed = False\<rparr> = Some BeatWait \<and>
   step counting Done
     \<lparr>world = no_counts, trace = [], read_task = Some ReadLoop, beat_task = Some BeatWait,
      done_closed = False\<rparr> = None \<and>
   step counting Timeout
     \<lparr>world = no_counts, trace = [], read_task = Some ReadLoop, beat_task = Some BeatWait,
      done_closed = False\<rparr> =
     Some \<lparr>world = no_counts, trace = [ConnClose HeartbeatTask, TickerStop],
           read_task = Some ReadLoop, beat_task = Some BeatReturned, done_closed = False\<rparr> \<and>
   beat_task
     \<lparr>world = no_counts, trace = [ConnClose HeartbeatTask, TickerStop],
      read_task = Some ReadLoop, beat_task = Some BeatReturned, done_closed = False\<rparr> =
     Some BeatReturned \<and>
   step counting (Interrupt None)
     \<lparr>world = no_counts, trace = [ConnClose HeartbeatTask, TickerStop],
      read_task = Some ReadLoop, beat_task = Some BeatReturned, done_closed = False\<rparr> = None"
proof -
  let ?S = "SubscribeToNotifications plain_outside server counting no_counts"
  let ?W = "\<lparr>world = no_counts, trace = [], read_task = Some ReadLoop, beat_task = Some BeatWait,
      done_closed = False\<rparr>"
  let ?R = "\<lparr>world = no_counts, trace = [ConnClose HeartbeatTask, TickerStop],
      read_task = Some ReadLoop, beat_task = Some BeatReturned, done_closed = False\<rparr>"
  have h1: "beat_task ?S = Some BeatSelect" by (simp add: session_started)
  have h2: "beat_task ?W = Some BeatWait" by simp
  have h3: "beat_task ?R = Some BeatReturned" by simp
  note a = shutdown_handshake [of ?S counting None "''t''"]
  note b = shutdown_handshake [of ?W counting None "''t''"]
  note c = shutdown_handshake [of ?R counting None "''t''"]
  from a h1 have 1: "step counting (Interrupt None) ?S =
        Some (?S\<lparr>trace := trace ?S @
                   [WriteMessage HeartbeatTask CloseMessage (FormatCloseMessage CloseNormalClosure [])],
                 beat_task := Some BeatWait\<rparr>)" by blast
  from b h2 have 2: "step counting Done ?W =
        (if done_closed ?W
         then Some (?W\<lparr>trace := trace ?W @ [TickerStop], beat_task := Some BeatReturned\<rparr>)
         else None) \<and>
      step counting Timeout ?W =
        Some (?W\<lparr>trace := trace ?W @ [ConnClose HeartbeatTask, TickerStop],
                 beat_task := Some BeatReturned\<rparr>)" by blast
  from c h3 have 3: "step counting (Interrupt None) ?R = None" by blast
  show ?thesis
    using h1 1 2 3 unfolding session_started by simp
qed

lemma step_close_frames:
  assumes "step a i s = Some s'"
    and "length (filter is_close_frame (trace s)) = (if cancelled s then 1 else 0)"
  shows "length (filter is_close_frame (trace s')) = (if cancelled s' then 1 else 0) \<and>
         length (filter is_close_frame (trace s')) =
           length (filter is_close_frame (trace s)) + length (filter is_Interrupt [i])"
proof (cases i)
  case (Read r)
  then show ?thesis using assms
    by (cases r)
      (auto simp: read_iteration_def emit_def Let_def cancelled_def split: if_splits option.splits)
qed (use assms in \<open>auto simp: emit_def Let_def cancelled_def TextMessage_def CloseMessage_def
      split: if_splits option.splits\<close>)

lemma run_close_frames:
  "run a is s = Some s' \<Longrightarrow>
   length (filter is_close_frame (trace s)) = (if cancelled s then 1 else 0) \<Longrightarrow>
   length (filter is_close_frame (trace s')) = (if cancelled s' then 1 else 0) \<and>
   length (filter is_close_frame (trace s')) =
     length (filter is_close_frame (trace s)) + length (filter is_Interrupt is)"
proof (induction "is" arbitrary: s)
  case Nil
  then show ?case by simp
next
  case (Cons i "is")
  from Cons.prems(1) obtain s1 where s1: "step a i s = Some s1" and r: "run a is s1 = Some s'"
    by (auto split: option.splits)
  note st = step_close_frames [OF s1 Cons.prems(2)]
  from st have 1: "length (filter is_close_frame (trace s1)) = (if cancelled s1 then 1 else 0)"
    by blast
  note ih = Cons.IH [OF r 1]
  from ih have c: "length (filter is_close_frame (trace s')) = (if cancelled s' then 1 else 0)"
    by blast
  from ih have e1: "length (filter is_close_frame (trace s')) =
      length (filter is_close_frame (trace s1)) + length (filter is_Interrupt is)"
    by blast
  from st have e2: "length (filter is_close_frame (trace s1)) =
      length (filter is_close_frame (trace s)) + length (filter is_Interrupt [i])"
    by blast
  have e3: "length (filter is_Interrupt (i # is)) =
      length (filter is_Interrupt [i]) + length (filter is_Interrupt is)"
    by simp
  have "length (filter is_close_frame (trace s')) =
      length (filter is_close_frame (trace s)) + length (filter is_Interrupt (i # is))"
    by (simp only: e1 e2 e3 add.assoc)
  with c show ?case by blast
qed

lemma Subscribe_no_close_frame:
  "filter is_close_frame (trace (SubscribeToNotifications out p a w)) = [] \<and>
   \<not> cancelled (SubscribeToNotifications out p a w)"
  by (auto simp: SubscribeToNotifications_def Let_def cancelled_def split: sum.splits option.splits)

text \<open>
  In every run of a session the close frame is written once if the heartbeat has
  received the interrupt and never otherwise: once per interrupt received, and no
  second interrupt is received.
\<close>

theorem one_close_frame:
  assumes "run a is (SubscribeToNotifications out p a w) = Some s"
  shows "length (filter is_close_frame (trace s)) = (if cancelled s then 1 else 0) \<and>
         length (filter is_close_frame (trace s)) = length (filter is_Interrupt is)"
  using run_close_frames [OF assms] Subscribe_no_close_frame [of out p a w] by simp

theorem one_close_frame_witness:
  "run counting [Tick ''t1'' None, Interrupt (Some (OtherError ''broken pipe'')), Timeout]
     (SubscribeToNotifications plain_outside server counting no_counts) =
   Some \<lparr>world = \<lparr>errors = 0, dones = 0, played = []\<rparr>,
         trace =
           [DialCall ''wss://plex.local:32400/:/websockets/notifications''
              [(''X-Plex-Token'', [''secret''])],
            WriteMessage HeartbeatTask TextMessage ''t1'',
            WriteMessage HeartbeatTask CloseMessage (FormatCloseMessage CloseNormalClosure []),
            ConnClose HeartbeatTask,
            TickerStop],
         read_task = Some ReadLoop, beat_task = Some BeatReturned, done_closed = False\<rparr> \<and>
   length (filter is_close_frame
     [DialCall ''wss://plex.local:32400/:/websockets/notifications''
        [(''X-Plex-Token'', [''secret''])],
      WriteMessage HeartbeatTask TextMessage ''t1'',
      WriteMessage HeartbeatTask CloseMessage (FormatCloseMessage CloseNormalClosure []),
      ConnClose HeartbeatTask,
      TickerStop]) = 1"
proof -
  let ?is = "[Tick ''t1'' None, Interrupt (Some (OtherError ''broken pipe'')), Timeout]"
  let ?s = "\<lparr>world = \<lparr>errors = 0, dones = 0, played = []\<rparr>,
         trace =
           [DialCall ''wss://plex.local:32400/:/websockets/notifications''
              [(''X-Plex-Token'', [''secret''])],
            WriteMessage HeartbeatTask TextMessage ''t1'',
            WriteMessage HeartbeatTask CloseMessage (FormatCloseMessage CloseNormalClosure []),
            ConnClose HeartbeatTask,
            TickerStop],
         read_task = Some ReadLoop, beat_task = Some BeatReturned, done_closed = False\<rparr>"
  have r: "run counting ?is (SubscribeToNotifications plain_outside server counting no_counts) = Some ?s"
    unfolding session_started
    by (simp add: emit_def Let_def no_counts_def)
  from one_close_frame [OF r]
  have "length (filter is_close_frame (trace ?s)) = length (filter is_Interrupt ?is)"
    by blast
  then show ?thesis using r by simp
qed

end
